theory Spec2Isabelle
  imports Main
begin

section \<open>The default scheduler strategy: data model\<close>

text \<open>
  The development embeds \<open>DefaultSchedulerStrategy\<close>
  (\<open>default-scheduler-strategy.ts\<close>): the callback built by \<open>executeTask\<close>, the
  row creation of \<open>ensureTaskIsRegistered\<close> and the read side \<open>getTasks\<close>,
  \<open>getTask\<close>, \<open>entityToReport\<close>.

  Dates are natural numbers (milliseconds). The values that flow through the callback
  (the result of the task, whatever is thrown, the content of \<open>lastResult\<close>) are
  JavaScript values; \<open>ErrorInst m\<close> is an instance of \<open>Error\<close> whose message is
  \<open>m\<close>, and \<open>Obj\<close> is an object literal.
\<close>

type_synonym timestamp = nat

datatype js_value =
    Undefined
  | Null
  | Str string
  | Num int
  | ErrorInst string
  | Obj "(string \<times> js_value) list"

text \<open>
  Modelled from the spec: the entity \<open>ScheduledTaskRecord\<close> is declared in
  \<open>scheduled-task-record.entity.ts\<close>, which is not among the sources. Its columns are
  the five fields of the TaskLease row; \<open>taskId\<close> is the key on which an insert
  conflicts.
\<close>

record ScheduledTaskRecord =
  taskId :: string
  enabled :: bool
  lockedAt :: "timestamp option"
  lastExecutedAt :: "timestamp option"
  lastResult :: js_value

type_synonym table = "ScheduledTaskRecord list"

record TaskReport =
  report_id :: string
  report_lastExecutedAt :: "timestamp option"
  isRunning :: bool
  report_lastResult :: js_value
  report_enabled :: bool

text \<open>
  A timeout option is a number of milliseconds or a duration string. The task body is
  given by what the promise of \<open>task.execute\<close> does, in milliseconds counted from the
  call. The thread runs one turn at a time, and neither the timer nor anything else
  runs while a turn holds the thread:
  \<^item> \<open>SettlesAfter d st\<close>: the promise settles \<open>d\<close> ms after the call, in a turn of
    its own that starts then (a callback of I/O or of a timer, the thread having been
    free before);
  \<^item> \<open>SettlesHolding wait busy st\<close>: the turn in which the promise settles starts
    \<open>wait\<close> ms after the call and holds the thread for \<open>busy\<close> ms before it settles
    the promise, at \<open>wait + busy\<close>; \<open>wait = 0\<close> is the call itself, a body that
    computes without yielding and returns a settled promise;
  \<^item> \<open>NeverSettles\<close>: the promise stays pending.
  A body that never gives the thread back is not among these.
\<close>

datatype duration = Millis int | DurationString string

datatype settlement = Fulfils js_value | Rejects js_value

datatype body_behaviour =
    SettlesAfter nat settlement
  | SettlesHolding nat nat settlement
  | NeverSettles

record ScheduledTask =
  task_id :: string
  task_timeout :: "duration option"
  execute :: body_behaviour

text \<open>
  What the strategy obtains in \<open>init\<close>, and the two things it uses that lie outside
  the sources: the \<open>ms\<close> library (applied to a string, or to \<open>undefined\<close> when no
  timeout is configured at all; it throws, or returns a number or \<open>undefined\<close>) and the
  column defaults of the entity for the columns an insert of \<open>{taskId}\<close> leaves out.
\<close>

record strategy =
  isServer :: bool
  defaultTimeout :: "duration option"
  ms :: "string option \<Rightarrow> js_value + int option"
  default_enabled :: bool
  default_lastResult :: js_value

text \<open>
  The circumstances of one firing: the two readings of \<open>new Date()\<close>; how long after
  its delay the callback of the timer gets to run (the event loop may be busy with other
  work) and which way a dead heat between the body and the timer goes; and for each of
  the four statements sent to the database whether it is rejected (with which value)
  instead of executed.
\<close>

record firing =
  claimTime :: timestamp
  completionTime :: timestamp
  timerLag :: nat
  timerWinsTie :: bool
  insertFault :: "js_value option"
  claimFault :: "js_value option"
  releaseFault :: "js_value option"
  errorReleaseFault :: "js_value option"

datatype log_message =
    Executing string
  | TimedOut string "int option"
  | CompletedSuccessfully string
  | FailedWithError string string

datatype log_level = Verbose | Warn | Error

text \<open>The columns an \<open>update\<close> assigns; \<open>None\<close> leaves the column alone.\<close>

record assignment =
  set_lockedAt :: "timestamp option option"
  set_lastExecutedAt :: "timestamp option option"
  set_lastResult :: "js_value option"

datatype event =
    InsertOrIgnore string
  | ClaimUpdate string timestamp nat
  | Update string assignment
  | Log log_level log_message
  | TimerSet nat
  | TimerCleared
  | BodyInvoked string

text \<open>
  The state the callback works on: \<open>tasks\<close> is the map of the strategy object (one
  per process; only \<open>isRegistered\<close> is ever read), \<open>rows\<close> is the shared table,
  \<open>trace\<close> lists what the callback did, in order, and \<open>late\<close> what its timer still
  does after the callback has settled.
\<close>

record world =
  tasks :: "string \<rightharpoonup> bool"
  rows :: table
  trace :: "event list"
  late :: "event list"

datatype settled = Resolved | Rejected js_value

section \<open>The statements sent to the database\<close>

text \<open>
  Modelled from the spec: the row an insert of \<open>{taskId}\<close> creates has null
  \<open>lockedAt\<close> and \<open>lastExecutedAt\<close>; the entity declaration that fixes the defaults
  is not among the sources.
\<close>

definition newRecord :: "strategy \<Rightarrow> string \<Rightarrow> ScheduledTaskRecord" where
  "newRecord s tid =
     \<lparr>taskId = tid, enabled = default_enabled s, lockedAt = None,
      lastExecutedAt = None, lastResult = default_lastResult s\<rparr>"

text \<open>\<open>insert().into(..).values({taskId}).orIgnore()\<close>\<close>

definition insertOrIgnore :: "strategy \<Rightarrow> string \<Rightarrow> table \<Rightarrow> table" where
  "insertOrIgnore s tid tb =
     (if tid \<in> set (map taskId tb) then tb else tb @ [newRecord s tid])"

text \<open>
  \<open>update().set({lockedAt: new Date()}).where('taskId = :taskId').andWhere('lockedAt IS NULL')\<close>:
  the new table and the number of affected rows.
\<close>

definition claimable :: "string \<Rightarrow> ScheduledTaskRecord \<Rightarrow> bool" where
  "claimable tid r \<longleftrightarrow> taskId r = tid \<and> lockedAt r = None"

definition tryClaim :: "string \<Rightarrow> timestamp \<Rightarrow> table \<Rightarrow> table \<times> nat" where
  "tryClaim tid now tb =
     (map (\<lambda>r. if claimable tid r then r\<lparr>lockedAt := Some now\<rparr> else r) tb,
      length (filter (claimable tid) tb))"

text \<open>\<open>getRepository(..).update({taskId}, partial)\<close>\<close>

definition assign :: "assignment \<Rightarrow> ScheduledTaskRecord \<Rightarrow> ScheduledTaskRecord" where
  "assign a r =
     r\<lparr>lockedAt := (case set_lockedAt a of None \<Rightarrow> lockedAt r | Some v \<Rightarrow> v),
       lastExecutedAt := (case set_lastExecutedAt a of None \<Rightarrow> lastExecutedAt r | Some v \<Rightarrow> v),
       lastResult := (case set_lastResult a of None \<Rightarrow> lastResult r | Some v \<Rightarrow> v)\<rparr>"

definition updateWhereTaskId :: "string \<Rightarrow> assignment \<Rightarrow> table \<Rightarrow> table" where
  "updateWhereTaskId tid a tb = map (\<lambda>r. if taskId r = tid then assign a r else r) tb"

section \<open>The strategy\<close>

definition emit :: "event list \<Rightarrow> world \<Rightarrow> world" where
  "emit es w = w\<lparr>trace := trace w @ es\<rparr>"

text \<open>
  \<open>this.tasks.get(task.id)?.isRegistered\<close>, and \<open>ensureTaskIsRegistered\<close>: the
  insert is sent unless this process has already registered the task; when the insert
  is rejected the map is not updated.
\<close>

definition registered :: "world \<Rightarrow> string \<Rightarrow> bool" where
  "registered w tid = (case tasks w tid of None \<Rightarrow> False | Some b \<Rightarrow> b)"

definition ensureTaskIsRegistered ::
    "strategy \<Rightarrow> firing \<Rightarrow> ScheduledTask \<Rightarrow> world \<Rightarrow> js_value option \<times> world" where
  "ensureTaskIsRegistered s f task w =
     (if \<not> registered w (task_id task) then
        (case insertFault f of
           Some e \<Rightarrow> (Some e, w)
         | None \<Rightarrow>
             (None, emit [InsertOrIgnore (task_id task)]
                      (w\<lparr>rows := insertOrIgnore s (task_id task) (rows w),
                         tasks := (tasks w)(task_id task \<mapsto> True)\<rparr>)))
      else (None, w))"

text \<open>The claim: the conditional update of lines 44 to 51 and its \<open>affected\<close> count.\<close>

definition claimLease :: "firing \<Rightarrow> ScheduledTask \<Rightarrow> world \<Rightarrow> js_value + nat \<times> world" where
  "claimLease f task w =
     (case claimFault f of
        Some e \<Rightarrow> Inl e
      | None \<Rightarrow>
          (case tryClaim (task_id task) (claimTime f) (rows w) of
             (tb, affected) \<Rightarrow>
               Inr (affected,
                    emit [ClaimUpdate (task_id task) (claimTime f) affected] (w\<lparr>rows := tb\<rparr>))))"

text \<open>
  \<open>task.options.timeout ?? pluginOptions.defaultTimeout\<close>, then
  \<open>typeof timeout === 'number' ? timeout : ms(timeout)\<close>.
\<close>

definition resolveTimeout :: "strategy \<Rightarrow> ScheduledTask \<Rightarrow> js_value + int option" where
  "resolveTimeout s task =
     (case (case task_timeout task of None \<Rightarrow> defaultTimeout s | Some t \<Rightarrow> Some t) of
        Some (Millis n) \<Rightarrow> Inr (Some n)
      | Some (DurationString str) \<Rightarrow> ms s (Some str)
      | None \<Rightarrow> ms s None)"

text \<open>
  The delay \<open>setTimeout\<close> arms the timer with: a delay that is not a number between
  1 and \<open>2^31 - 1\<close> is replaced by 1.
\<close>

definition setTimeoutDelay :: "int option \<Rightarrow> nat" where
  "setTimeoutDelay t =
     (case t of
        None \<Rightarrow> 1
      | Some n \<Rightarrow> if 1 \<le> n \<and> n \<le> 2147483647 then nat n else 1)"

text \<open>
  \<open>Promise.race([task.execute(injector), timeoutPromise])\<close>: who settles first. The
  timer is armed (line 63) before the body is called (line 69), and its callback is a
  turn of its own, which runs \<open>timerRunsAt\<close> ms after the call unless the race is
  already decided. The race goes to the body when the turn in which the body settles
  starts before that, however long that turn then holds the thread: the \<open>await\<close> of
  line 69 resumes at the end of that turn, before any timer runs, and line 72 clears the
  timer. It goes to the timer when its callback runs before that turn starts.
\<close>

datatype race_result = BodyFirst settlement | TimerFirst



definition timerRunsAt :: "firing \<Rightarrow> int option \<Rightarrow> nat" where
  "timerRunsAt f timeoutMs = setTimeoutDelay timeoutMs + timerLag f"

definition race :: "bool \<Rightarrow> nat \<Rightarrow> body_behaviour \<Rightarrow> race_result" where
  "race tie runsAt b =
     (case b of
        NeverSettles \<Rightarrow> TimerFirst
      | SettlesAfter d st \<Rightarrow>
          if d < runsAt \<or> (d = runsAt \<and> \<not> tie) then BodyFirst st else TimerFirst
      | SettlesHolding wait busy st \<Rightarrow>
          if wait < runsAt \<or> (wait = runsAt \<and> \<not> tie) then BodyFirst st else TimerFirst)"

text \<open>
  The two release statements: the one of the \<open>try\<close> (lines 75 to 84), applied to
  the value of \<open>result ?? ''\<close>, and the one of the \<open>catch\<close> (lines 92 to 100).
\<close>

definition successRelease :: "timestamp \<Rightarrow> js_value \<Rightarrow> assignment" where
  "successRelease now v =
     \<lparr>set_lockedAt = Some None, set_lastExecutedAt = Some (Some now), set_lastResult = Some v\<rparr>"

definition failureRelease :: "string \<Rightarrow> assignment" where
  "failureRelease m =
     \<lparr>set_lockedAt = Some None, set_lastExecutedAt = None,
      set_lastResult = Some (Obj [(''error'', Str m)])\<rparr>"

definition orEmptyString :: "js_value \<Rightarrow> js_value" where
  "orEmptyString result = (if result = Undefined \<or> result = Null then Str '''' else result)"

text \<open>
  The body of the \<open>try\<close> (lines 58 to 85). The first component is what it throws, if
  anything. When the body rejects first the timer is not cleared: it fires after the
  callback has settled and logs its warning then.
\<close>

definition tryBlock ::
    "strategy \<Rightarrow> firing \<Rightarrow> ScheduledTask \<Rightarrow> world \<Rightarrow> js_value option \<times> world" where
  "tryBlock s f task w =
     (case resolveTimeout s task of
        Inl e \<Rightarrow> (Some e, w)
      | Inr timeoutMs \<Rightarrow>
          (case race (timerWinsTie f) (timerRunsAt f timeoutMs) (execute task) of
             TimerFirst \<Rightarrow>
               (Some (ErrorInst ''Task timed out''),
                emit [TimerSet (setTimeoutDelay timeoutMs), BodyInvoked (task_id task),
                      Log Warn (TimedOut (task_id task) timeoutMs)] w)
           | BodyFirst (Rejects e) \<Rightarrow>
               (Some e,
                (emit [TimerSet (setTimeoutDelay timeoutMs), BodyInvoked (task_id task)] w)
                  \<lparr>late := late w @ [Log Warn (TimedOut (task_id task) timeoutMs)]\<rparr>)
           | BodyFirst (Fulfils result) \<Rightarrow>
               (case releaseFault f of
                  Some e \<Rightarrow>
                    (Some e,
                     emit [TimerSet (setTimeoutDelay timeoutMs), BodyInvoked (task_id task),
                           TimerCleared] w)
                | None \<Rightarrow>
                    (None,
                     emit [TimerSet (setTimeoutDelay timeoutMs), BodyInvoked (task_id task),
                           TimerCleared,
                           Update (task_id task)
                             (successRelease (completionTime f) (orEmptyString result)),
                           Log Verbose (CompletedSuccessfully (task_id task))]
                       (w\<lparr>rows := updateWhereTaskId (task_id task)
                                    (successRelease (completionTime f) (orEmptyString result))
                                    (rows w)\<rparr>)))))"

text \<open>The \<open>catch\<close> (lines 86 to 101).\<close>

definition errorMessageOf :: "js_value \<Rightarrow> string" where
  "errorMessageOf error = (case error of ErrorInst m \<Rightarrow> m | _ \<Rightarrow> ''Unknown error'')"

definition catchBlock :: "firing \<Rightarrow> ScheduledTask \<Rightarrow> js_value \<Rightarrow> world \<Rightarrow> settled \<times> world" where
  "catchBlock f task error w =
     (case errorReleaseFault f of
        Some e \<Rightarrow>
          (Rejected e,
           emit [Log Error (FailedWithError (task_id task) (errorMessageOf error))] w)
      | None \<Rightarrow>
          (Resolved,
           emit [Log Error (FailedWithError (task_id task) (errorMessageOf error)),
                 Update (task_id task) (failureRelease (errorMessageOf error))]
             (w\<lparr>rows := updateWhereTaskId (task_id task)
                          (failureRelease (errorMessageOf error)) (rows w)\<rparr>)))"

text \<open>
  The callback \<open>executeTask(task)\<close> returns, run on one firing, in three parts:
  \<open>claimStep\<close> is lines 43 to 51 (registration, then the claim), \<open>runClaimed\<close>
  is the \<open>try\<close>/\<open>catch\<close> of lines 56 to 101, and \<open>executeTask\<close> puts them
  together with the two early returns.
\<close>

definition claimStep ::
    "strategy \<Rightarrow> firing \<Rightarrow> ScheduledTask \<Rightarrow> world \<Rightarrow> (js_value + nat) \<times> world" where
  "claimStep s f task w =
     (case ensureTaskIsRegistered s f task w of
        (Some e, w1) \<Rightarrow> (Inl e, w1)
      | (None, w1) \<Rightarrow>
          (case claimLease f task w1 of
             Inl e \<Rightarrow> (Inl e, w1)
           | Inr (affected, w2) \<Rightarrow> (Inr affected, w2)))"

definition runClaimed ::
    "strategy \<Rightarrow> firing \<Rightarrow> ScheduledTask \<Rightarrow> world \<Rightarrow> settled \<times> world" where
  "runClaimed s f task w =
     (case tryBlock s f task (emit [Log Verbose (Executing (task_id task))] w) of
        (None, w1) \<Rightarrow> (Resolved, w1)
      | (Some error, w1) \<Rightarrow> catchBlock f task error w1)"

definition executeTask ::
    "strategy \<Rightarrow> firing \<Rightarrow> ScheduledTask \<Rightarrow> world \<Rightarrow> settled \<times> world" where
  "executeTask s f task w =
     (if isServer s then (Resolved, w)
      else
        (case claimStep s f task w of
           (Inl e, w1) \<Rightarrow> (Rejected e, w1)
         | (Inr affected, w1) \<Rightarrow>
             if affected = 0 then (Resolved, w1) else runClaimed s f task w1))"

text \<open>The read side.\<close>

definition entityToReport :: "ScheduledTaskRecord \<Rightarrow> TaskReport" where
  "entityToReport task =
     \<lparr>report_id = taskId task,
      report_lastExecutedAt = lastExecutedAt task,
      isRunning = (lockedAt task \<noteq> None),
      report_lastResult = lastResult task,
      report_enabled = enabled task\<rparr>"

definition getTasks :: "table \<Rightarrow> TaskReport list" where
  "getTasks tb = map entityToReport tb"

definition getTask :: "string \<Rightarrow> table \<Rightarrow> TaskReport option" where
  "getTask i tb =
     (case find (\<lambda>task. taskId task = i) tb of
        None \<Rightarrow> None
      | Some task \<Rightarrow> Some (entityToReport task))"

section \<open>Notions used in the statements\<close>

text \<open>A process that has registered nothing yet, looking at table \<open>tb\<close>.\<close>

definition blank :: "table \<Rightarrow> world" where
  "blank tb = \<lparr>tasks = Map.empty, rows = tb, trace = [], late = []\<rparr>"

text \<open>
  Several processes fire the same task. The database executes their claim statements one
  after the other, in the order of the list; each process gets back its own count of
  affected rows, or the rejection of its statement.
\<close>

fun claimAll :: "ScheduledTask \<Rightarrow> firing list \<Rightarrow> table \<Rightarrow> table \<times> (js_value + nat) list" where
  "claimAll task [] tb = (tb, [])"
| "claimAll task (f # fs) tb =
     (case claimLease f task (blank tb) of
        Inl e \<Rightarrow> (case claimAll task fs tb of (tb', rs) \<Rightarrow> (tb', Inl e # rs))
      | Inr (n, w) \<Rightarrow> (case claimAll task fs (rows w) of (tb', rs) \<Rightarrow> (tb', Inr n # rs)))"

text \<open>A process goes on to run the task when \<open>affected\<close> is not zero (line 52).\<close>

definition succeeded :: "js_value + nat \<Rightarrow> bool" where
  "succeeded r = (case r of Inl e \<Rightarrow> False | Inr n \<Rightarrow> n \<noteq> 0)"

definition winners :: "ScheduledTask \<Rightarrow> firing list \<Rightarrow> table \<Rightarrow> nat" where
  "winners task fs tb = length (filter succeeded (snd (claimAll task fs tb)))"

text \<open>The statements in a trace that write to the table.\<close>

fun is_write :: "event \<Rightarrow> bool" where
  "is_write (InsertOrIgnore tid) = True"
| "is_write (ClaimUpdate tid now n) = True"
| "is_write (Update tid a) = True"
| "is_write e = False"

definition writes :: "event list \<Rightarrow> event list" where
  "writes es = filter is_write es"

text \<open>The rows of a task.\<close>

definition rowsOf :: "string \<Rightarrow> table \<Rightarrow> table" where
  "rowsOf tid tb = filter (\<lambda>r. taskId r = tid) tb"

text \<open>
  The table is well formed when no two rows have the same \<open>taskId\<close>, and the map of a
  process agrees with a table when every task the process has registered has a row.
\<close>

definition wellFormed :: "table \<Rightarrow> bool" where
  "wellFormed tb \<longleftrightarrow> distinct (map taskId tb)"

definition agrees :: "world \<Rightarrow> string \<Rightarrow> table \<Rightarrow> bool" where
  "agrees w tid tb \<longleftrightarrow> (registered w tid \<longrightarrow> tid \<in> set (map taskId tb))"

section \<open>Sample inputs\<close>

definition worker :: strategy where
  "worker =
     \<lparr>isServer = False, defaultTimeout = Some (Millis 60000),
      ms = (\<lambda>x. Inr None), default_enabled = True, default_lastResult = Null\<rparr>"

definition calm :: firing where
  "calm =
     \<lparr>claimTime = 1000, completionTime = 1010, timerLag = 0, timerWinsTie = True,
      insertFault = None, claimFault = None, releaseFault = None, errorReleaseFault = None\<rparr>"

definition digest :: "body_behaviour \<Rightarrow> ScheduledTask" where
  "digest b = \<lparr>task_id = ''send-digest'', task_timeout = Some (Millis 100), execute = b\<rparr>"

definition idle :: "bool \<Rightarrow> ScheduledTaskRecord" where
  "idle en =
     \<lparr>taskId = ''send-digest'', enabled = en, lockedAt = None,
      lastExecutedAt = None, lastResult = Null\<rparr>"

section \<open>Basic facts\<close>

lemma rows_emit [simp]: "rows (emit es w) = rows w"
  and tasks_emit [simp]: "tasks (emit es w) = tasks w"
  and late_emit [simp]: "late (emit es w) = late w"
  and trace_emit [simp]: "trace (emit es w) = trace w @ es"
  by (simp_all add: emit_def)

lemma writes_append [simp]: "writes (xs @ ys) = writes xs @ writes ys"
  by (simp add: writes_def)

lemma assign_lockedAt [simp]:
  "lockedAt (assign a r) = (case set_lockedAt a of None \<Rightarrow> lockedAt r | Some v \<Rightarrow> v)"
  by (simp add: assign_def)

lemma assign_lastExecutedAt [simp]:
  "lastExecutedAt (assign a r) =
     (case set_lastExecutedAt a of None \<Rightarrow> lastExecutedAt r | Some v \<Rightarrow> v)"
  by (simp add: assign_def)

lemma assign_lastResult [simp]:
  "lastResult (assign a r) = (case set_lastResult a of None \<Rightarrow> lastResult r | Some v \<Rightarrow> v)"
  by (simp add: assign_def)

lemma assign_taskId [simp]: "taskId (assign a r) = taskId r"
  by (simp add: assign_def)

lemma assign_enabled [simp]: "enabled (assign a r) = enabled r"
  by (simp add: assign_def)

lemma set_lockedAt_release [simp]:
  "set_lockedAt (successRelease now v) = Some None"
  "set_lockedAt (failureRelease m) = Some None"
  by (simp_all add: successRelease_def failureRelease_def)

lemma released_rows:
  "set_lockedAt a = Some None \<Longrightarrow>
   \<forall>r\<in>set (updateWhereTaskId tid a tb). taskId r = tid \<longrightarrow> lockedAt r = None"
  by (induction tb) (simp_all add: updateWhereTaskId_def)

lemma taskId_updateWhereTaskId [simp]:
  "map taskId (updateWhereTaskId tid a tb) = map taskId tb"
  by (induction tb) (simp_all add: updateWhereTaskId_def)

subsection \<open>The claim statement\<close>

lemma tryClaim_leaves_none: "filter (claimable tid) (fst (tryClaim tid now tb)) = []"
  by (induction tb) (auto simp: tryClaim_def claimable_def)

lemma tryClaim_none: "filter (claimable tid) tb = [] \<Longrightarrow> tryClaim tid now tb = (tb, 0)"
  by (induction tb) (auto simp: tryClaim_def split: if_splits)

lemma tryClaim_count: "snd (tryClaim tid now tb) \<noteq> 0 \<longleftrightarrow> (\<exists>r\<in>set tb. claimable tid r)"
  by (auto simp: tryClaim_def filter_empty_conv)

lemma taskId_tryClaim [simp]: "map taskId (fst (tryClaim tid now tb)) = map taskId tb"
  by (induction tb) (simp_all add: tryClaim_def)

lemma enabled_tryClaim [simp]: "map enabled (fst (tryClaim tid now tb)) = map enabled tb"
  by (induction tb) (simp_all add: tryClaim_def)

lemma claimLease_fault: "claimFault f = Some e \<Longrightarrow> claimLease f task w = Inl e"
  by (simp add: claimLease_def)

lemma claimLease_ok:
  "claimFault f = None \<Longrightarrow>
   claimLease f task w =
     Inr (snd (tryClaim (task_id task) (claimTime f) (rows w)),
          emit [ClaimUpdate (task_id task) (claimTime f)
                  (snd (tryClaim (task_id task) (claimTime f) (rows w)))]
            (w\<lparr>rows := fst (tryClaim (task_id task) (claimTime f) (rows w))\<rparr>))"
  by (simp add: claimLease_def split_beta)

subsection \<open>Several processes claiming\<close>

lemma claimAll_none:
  "filter (claimable (task_id task)) tb = [] \<Longrightarrow>
   fst (claimAll task fs tb) = tb \<and> filter succeeded (snd (claimAll task fs tb)) = []"
proof (induction fs)
  case Nil
  then show ?case by simp
next
  case (Cons f fs)
  then show ?case
    by (cases "claimFault f")
       (simp_all add: claimLease_fault claimLease_ok blank_def tryClaim_none split_beta succeeded_def)
qed

lemma winners_step:
  "claimFault f = None \<Longrightarrow>
   winners task (f # fs) tb = (if \<exists>r\<in>set tb. claimable (task_id task) r then 1 else 0)"
  using claimAll_none [OF tryClaim_leaves_none, of task fs "claimTime f" tb]
        tryClaim_count [of "task_id task" "claimTime f" tb]
  by (simp add: winners_def claimLease_ok blank_def split_beta succeeded_def)

lemma winners_skip:
  "claimFault f = Some e \<Longrightarrow> winners task (f # fs) tb = winners task fs tb"
  by (simp add: winners_def claimLease_fault split_beta succeeded_def)

lemma winners_le: "winners task fs tb \<le> 1"
proof (induction fs)
  case Nil
  then show ?case by (simp add: winners_def)
next
  case (Cons f fs)
  then show ?case by (cases "claimFault f") (simp_all add: winners_step winners_skip)
qed

lemma winners_one:
  "\<exists>r\<in>set tb. claimable (task_id task) r \<Longrightarrow> \<exists>f\<in>set fs. claimFault f = None \<Longrightarrow>
   winners task fs tb = 1"
proof (induction fs)
  case Nil
  then show ?case by simp
next
  case (Cons f fs)
  then show ?case by (cases "claimFault f") (simp_all add: winners_step winners_skip)
qed

lemma claimAll_locked:
  "\<exists>f\<in>set fs. claimFault f = None \<Longrightarrow>
   \<forall>r\<in>set (fst (claimAll task fs tb)). \<not> claimable (task_id task) r"
proof (induction fs)
  case Nil
  then show ?case by simp
next
  case (Cons f fs)
  show ?case
  proof (cases "claimFault f")
    case None
    have "filter (claimable (task_id task)) (fst (tryClaim (task_id task) (claimTime f) tb)) = []"
      by (rule tryClaim_leaves_none)
    then show ?thesis
      using claimAll_none [of task "fst (tryClaim (task_id task) (claimTime f) tb)" fs] None
      by (simp add: claimLease_ok blank_def split_beta filter_empty_conv)
  next
    case (Some e)
    then show ?thesis using Cons by (simp add: claimLease_fault split_beta)
  qed
qed

subsection \<open>Registration and the claim step\<close>

lemma ensure_registered:
  "registered w (task_id task) \<Longrightarrow> ensureTaskIsRegistered s f task w = (None, w)"
  by (simp add: ensureTaskIsRegistered_def)

lemma ensure_insert:
  "\<not> registered w (task_id task) \<Longrightarrow> insertFault f = None \<Longrightarrow>
   ensureTaskIsRegistered s f task w =
     (None, emit [InsertOrIgnore (task_id task)]
              (w\<lparr>rows := insertOrIgnore s (task_id task) (rows w),
                 tasks := (tasks w)(task_id task \<mapsto> True)\<rparr>))"
  by (simp add: ensureTaskIsRegistered_def)

lemma ensure_fault:
  "\<not> registered w (task_id task) \<Longrightarrow> insertFault f = Some e \<Longrightarrow>
   ensureTaskIsRegistered s f task w = (Some e, w)"
  by (simp add: ensureTaskIsRegistered_def)

lemma ensure_no_fault:
  "insertFault f = None \<Longrightarrow> fst (ensureTaskIsRegistered s f task w) = None"
  by (simp add: ensureTaskIsRegistered_def)

lemma claimStep_ensure_fails:
  "fst (ensureTaskIsRegistered s f task w) = Some e \<Longrightarrow>
   claimStep s f task w = (Inl e, snd (ensureTaskIsRegistered s f task w))"
  by (cases "ensureTaskIsRegistered s f task w") (simp add: claimStep_def)

lemma claimStep_claim_fails:
  "fst (ensureTaskIsRegistered s f task w) = None \<Longrightarrow> claimFault f = Some e \<Longrightarrow>
   claimStep s f task w = (Inl e, snd (ensureTaskIsRegistered s f task w))"
  by (cases "ensureTaskIsRegistered s f task w") (simp add: claimStep_def claimLease_fault)

lemma claimStep_ok:
  "fst (ensureTaskIsRegistered s f task w) = None \<Longrightarrow> claimFault f = None \<Longrightarrow>
   claimStep s f task w =
     (Inr (snd (tryClaim (task_id task) (claimTime f)
                  (rows (snd (ensureTaskIsRegistered s f task w))))),
      emit [ClaimUpdate (task_id task) (claimTime f)
              (snd (tryClaim (task_id task) (claimTime f)
                      (rows (snd (ensureTaskIsRegistered s f task w)))))]
        ((snd (ensureTaskIsRegistered s f task w))
           \<lparr>rows := fst (tryClaim (task_id task) (claimTime f)
                          (rows (snd (ensureTaskIsRegistered s f task w))))\<rparr>))"
  by (cases "ensureTaskIsRegistered s f task w") (simp add: claimStep_def claimLease_ok)

lemma claimStep_Inr:
  assumes "fst (claimStep s f task w) = Inr n"
  shows "fst (ensureTaskIsRegistered s f task w) = None \<and> claimFault f = None"
proof (cases "fst (ensureTaskIsRegistered s f task w)")
  case None
  show ?thesis
  proof (cases "claimFault f")
    case (Some e)
    with None assms show ?thesis by (simp add: claimStep_claim_fails)
  qed (simp add: None)
next
  case (Some e)
  with assms show ?thesis by (simp add: claimStep_ensure_fails)
qed

lemma claimStep_has_row:
  assumes "fst (claimStep s f task w) = Inr n" and "n \<noteq> 0"
  shows "task_id task \<in> set (map taskId (rows (snd (claimStep s f task w))))"
proof -
  from claimStep_Inr [OF assms(1)]
  have e: "fst (ensureTaskIsRegistered s f task w) = None" and c: "claimFault f = None"
    by simp_all
  from assms have "snd (tryClaim (task_id task) (claimTime f)
      (rows (snd (ensureTaskIsRegistered s f task w)))) \<noteq> 0"
    by (simp add: claimStep_ok [OF e c])
  then obtain r where "r \<in> set (rows (snd (ensureTaskIsRegistered s f task w)))"
    and "claimable (task_id task) r"
    unfolding tryClaim_count by blast
  then have "task_id task \<in> set (map taskId (rows (snd (ensureTaskIsRegistered s f task w))))"
    by (force simp: claimable_def)
  then show ?thesis
    by (simp add: claimStep_ok [OF e c])
qed

subsection \<open>The try and the catch\<close>

lemma tryBlock_ms_throws:
  "resolveTimeout s task = Inl e \<Longrightarrow> tryBlock s f task w = (Some e, w)"
  by (simp add: tryBlock_def)

lemma tryBlock_timer:
  "resolveTimeout s task = Inr t \<Longrightarrow>
   race (timerWinsTie f) (timerRunsAt f t) (execute task) = TimerFirst \<Longrightarrow>
   tryBlock s f task w =
     (Some (ErrorInst ''Task timed out''),
      emit [TimerSet (setTimeoutDelay t), BodyInvoked (task_id task),
            Log Warn (TimedOut (task_id task) t)] w)"
  by (simp add: tryBlock_def)

lemma tryBlock_rejects:
  "resolveTimeout s task = Inr t \<Longrightarrow>
   race (timerWinsTie f) (timerRunsAt f t) (execute task) = BodyFirst (Rejects e) \<Longrightarrow>
   tryBlock s f task w =
     (Some e,
      (emit [TimerSet (setTimeoutDelay t), BodyInvoked (task_id task)] w)
        \<lparr>late := late w @ [Log Warn (TimedOut (task_id task) t)]\<rparr>)"
  by (simp add: tryBlock_def)

lemma tryBlock_release_fails:
  "resolveTimeout s task = Inr t \<Longrightarrow>
   race (timerWinsTie f) (timerRunsAt f t) (execute task) = BodyFirst (Fulfils v) \<Longrightarrow>
   releaseFault f = Some e \<Longrightarrow>
   tryBlock s f task w =
     (Some e, emit [TimerSet (setTimeoutDelay t), BodyInvoked (task_id task), TimerCleared] w)"
  by (simp add: tryBlock_def)

lemma tryBlock_fulfils:
  "resolveTimeout s task = Inr t \<Longrightarrow>
   race (timerWinsTie f) (timerRunsAt f t) (execute task) = BodyFirst (Fulfils v) \<Longrightarrow>
   releaseFault f = None \<Longrightarrow>
   tryBlock s f task w =
     (None,
      emit [TimerSet (setTimeoutDelay t), BodyInvoked (task_id task), TimerCleared,
            Update (task_id task) (successRelease (completionTime f) (orEmptyString v)),
            Log Verbose (CompletedSuccessfully (task_id task))]
        (w\<lparr>rows := updateWhereTaskId (task_id task)
                     (successRelease (completionTime f) (orEmptyString v)) (rows w)\<rparr>))"
  by (simp add: tryBlock_def)

lemma tryBlock_cases:
  obtains
    (ms_throws) e where "resolveTimeout s task = Inl e"
  | (timer) t where "resolveTimeout s task = Inr t"
      "race (timerWinsTie f) (timerRunsAt f t) (execute task) = TimerFirst"
  | (rejects) t e where "resolveTimeout s task = Inr t"
      "race (timerWinsTie f) (timerRunsAt f t) (execute task) = BodyFirst (Rejects e)"
  | (release_fails) t v e where "resolveTimeout s task = Inr t"
      "race (timerWinsTie f) (timerRunsAt f t) (execute task) = BodyFirst (Fulfils v)"
      "releaseFault f = Some e"
  | (fulfils) t v where "resolveTimeout s task = Inr t"
      "race (timerWinsTie f) (timerRunsAt f t) (execute task) = BodyFirst (Fulfils v)"
      "releaseFault f = None"
proof (cases "resolveTimeout s task")
  case (Inl e)
  then show ?thesis by (rule ms_throws)
next
  case (Inr t)
  show ?thesis
  proof (cases "race (timerWinsTie f) (timerRunsAt f t) (execute task)")
    case TimerFirst
    with Inr show ?thesis by (rule timer)
  next
    case (BodyFirst st)
    show ?thesis
    proof (cases st)
      case (Rejects e)
      with Inr BodyFirst show ?thesis by (simp add: rejects)
    next
      case (Fulfils v)
      show ?thesis
      proof (cases "releaseFault f")
        case None
        with Inr BodyFirst Fulfils show ?thesis by (simp add: fulfils)
      next
        case (Some e)
        with Inr BodyFirst Fulfils show ?thesis by (simp add: release_fails)
      qed
    qed
  qed
qed

lemma tryBlock_thrown:
  "fst (tryBlock s f task w) = Some e \<Longrightarrow>
   rows (snd (tryBlock s f task w)) = rows w \<and>
   tasks (snd (tryBlock s f task w)) = tasks w \<and>
   writes (trace (snd (tryBlock s f task w))) = writes (trace w)"
  by (rule tryBlock_cases [where s = s and task = task and f = f])
     (simp_all add: tryBlock_ms_throws tryBlock_timer tryBlock_rejects tryBlock_release_fails
        tryBlock_fulfils writes_def)

lemma tryBlock_completed:
  "fst (tryBlock s f task w) = None \<Longrightarrow>
   \<exists>v. rows (snd (tryBlock s f task w)) =
         updateWhereTaskId (task_id task) (successRelease (completionTime f) v) (rows w) \<and>
       tasks (snd (tryBlock s f task w)) = tasks w \<and>
       writes (trace (snd (tryBlock s f task w))) =
         writes (trace w) @ [Update (task_id task) (successRelease (completionTime f) v)]"
  by (rule tryBlock_cases [where s = s and task = task and f = f])
     (simp_all add: tryBlock_ms_throws tryBlock_timer tryBlock_rejects tryBlock_release_fails
        tryBlock_fulfils writes_def, blast)

lemma catchBlock_ok:
  "errorReleaseFault f = None \<Longrightarrow>
   catchBlock f task e w =
     (Resolved,
      emit [Log Error (FailedWithError (task_id task) (errorMessageOf e)),
            Update (task_id task) (failureRelease (errorMessageOf e))]
        (w\<lparr>rows := updateWhereTaskId (task_id task)
                     (failureRelease (errorMessageOf e)) (rows w)\<rparr>))"
  by (simp add: catchBlock_def)

lemma catchBlock_fails:
  "errorReleaseFault f = Some x \<Longrightarrow>
   catchBlock f task e w =
     (Rejected x, emit [Log Error (FailedWithError (task_id task) (errorMessageOf e))] w)"
  by (simp add: catchBlock_def)

lemma runClaimed_completed:
  "fst (tryBlock s f task (emit [Log Verbose (Executing (task_id task))] w)) = None \<Longrightarrow>
   runClaimed s f task w =
     (Resolved, snd (tryBlock s f task (emit [Log Verbose (Executing (task_id task))] w)))"
  by (cases "tryBlock s f task (emit [Log Verbose (Executing (task_id task))] w)")
     (simp add: runClaimed_def)

lemma runClaimed_thrown:
  "fst (tryBlock s f task (emit [Log Verbose (Executing (task_id task))] w)) = Some e \<Longrightarrow>
   runClaimed s f task w =
     catchBlock f task e (snd (tryBlock s f task (emit [Log Verbose (Executing (task_id task))] w)))"
  by (cases "tryBlock s f task (emit [Log Verbose (Executing (task_id task))] w)")
     (simp add: runClaimed_def)

lemma runClaimed_releases:
  assumes "releaseFault f = None" and "errorReleaseFault f = None"
  shows "fst (runClaimed s f task w) = Resolved \<and>
     map taskId (rows (snd (runClaimed s f task w))) = map taskId (rows w) \<and>
     (\<forall>r\<in>set (rows (snd (runClaimed s f task w))). taskId r = task_id task \<longrightarrow> lockedAt r = None) \<and>
     (\<exists>a. set_lockedAt a = Some None \<and>
          writes (trace (snd (runClaimed s f task w))) = writes (trace w) @ [Update (task_id task) a])"
proof (cases "fst (tryBlock s f task (emit [Log Verbose (Executing (task_id task))] w))")
  case None
  from tryBlock_completed [OF None] obtain v where
    v: "rows (snd (tryBlock s f task (emit [Log Verbose (Executing (task_id task))] w))) =
          updateWhereTaskId (task_id task) (successRelease (completionTime f) v) (rows w)"
       "writes (trace (snd (tryBlock s f task (emit [Log Verbose (Executing (task_id task))] w)))) =
          writes (trace w) @ [Update (task_id task) (successRelease (completionTime f) v)]"
    by (auto simp: writes_def)
  have "\<forall>r\<in>set (updateWhereTaskId (task_id task) (successRelease (completionTime f) v) (rows w)).
          taskId r = task_id task \<longrightarrow> lockedAt r = None"
    by (rule released_rows) simp
  moreover have "set_lockedAt (successRelease (completionTime f) v) = Some None"
    by simp
  ultimately show ?thesis
    unfolding runClaimed_completed [OF None] using v by fastforce
next
  case (Some e)
  have "\<forall>r\<in>set (updateWhereTaskId (task_id task) (failureRelease (errorMessageOf e)) (rows w)).
          taskId r = task_id task \<longrightarrow> lockedAt r = None"
    by (rule released_rows) simp
  moreover have "set_lockedAt (failureRelease (errorMessageOf e)) = Some None"
    by simp
  ultimately show ?thesis
    unfolding runClaimed_thrown [OF Some] catchBlock_ok [OF assms(2)]
    using tryBlock_thrown [OF Some] by (simp add: writes_def)
qed

subsection \<open>The callback\<close>

lemma executeTask_server: "isServer s \<Longrightarrow> executeTask s f task w = (Resolved, w)"
  by (simp add: executeTask_def)

lemma executeTask_rejected:
  "\<not> isServer s \<Longrightarrow> fst (claimStep s f task w) = Inl e \<Longrightarrow>
   executeTask s f task w = (Rejected e, snd (claimStep s f task w))"
  by (cases "claimStep s f task w") (simp add: executeTask_def)

lemma executeTask_not_claimed:
  "\<not> isServer s \<Longrightarrow> fst (claimStep s f task w) = Inr 0 \<Longrightarrow>
   executeTask s f task w = (Resolved, snd (claimStep s f task w))"
  by (cases "claimStep s f task w") (simp add: executeTask_def)

lemma executeTask_claimed:
  "\<not> isServer s \<Longrightarrow> fst (claimStep s f task w) = Inr n \<Longrightarrow> n \<noteq> 0 \<Longrightarrow>
   executeTask s f task w = runClaimed s f task (snd (claimStep s f task w))"
  by (cases "claimStep s f task w") (simp add: executeTask_def)

lemma rowsOf_nonempty: "rowsOf tid tb \<noteq> [] \<longleftrightarrow> tid \<in> set (map taskId tb)"
  by (auto simp: rowsOf_def filter_empty_conv)

lemma set_rowsOf: "set (rowsOf tid tb) = {r \<in> set tb. taskId r = tid}"
  by (simp add: rowsOf_def)

subsection \<open>The rows after a release, and the three outcomes\<close>

lemma rowsOf_updateWhereTaskId:
  "rowsOf tid (updateWhereTaskId tid a tb) = map (assign a) (rowsOf tid tb)"
  by (induction tb) (simp_all add: rowsOf_def updateWhereTaskId_def)

lemma find_updateWhereTaskId:
  "find (\<lambda>r. taskId r = tid) (updateWhereTaskId tid a tb) =
     map_option (assign a) (find (\<lambda>r. taskId r = tid) tb)"
  by (induction tb) (simp_all add: updateWhereTaskId_def)

lemma find_taskId_None: "find (\<lambda>r. taskId r = tid) tb = None \<longleftrightarrow> tid \<notin> set (map taskId tb)"
  by (auto simp: find_None_iff)

lemma late_claimStep [simp]: "late (snd (claimStep s f task w)) = late w"
proof (cases "fst (ensureTaskIsRegistered s f task w)")
  case None
  have l: "late (snd (ensureTaskIsRegistered s f task w)) = late w"
    by (cases "insertFault f") (simp_all add: ensureTaskIsRegistered_def)
  show ?thesis
    by (cases "claimFault f") (simp_all add: claimStep_ok claimStep_claim_fails None l)
next
  case (Some e)
  then have "\<not> registered w (task_id task)"
    by (auto simp: ensureTaskIsRegistered_def split: if_splits)
  with Some show ?thesis
    by (cases "insertFault f") (simp_all add: claimStep_ensure_fails ensure_fault ensure_insert)
qed


lemma runClaimed_rejected:
  assumes "resolveTimeout s task = Inr t"
    and "race (timerWinsTie f) (timerRunsAt f t) (execute task) = BodyFirst (Rejects e)"
    and "errorReleaseFault f = None"
  shows "runClaimed s f task w =
     (Resolved,
      w\<lparr>rows := updateWhereTaskId (task_id task) (failureRelease (errorMessageOf e)) (rows w),
        trace := trace w @
          [Log Verbose (Executing (task_id task)), TimerSet (setTimeoutDelay t),
           BodyInvoked (task_id task),
           Log Error (FailedWithError (task_id task) (errorMessageOf e)),
           Update (task_id task) (failureRelease (errorMessageOf e))],
        late := late w @ [Log Warn (TimedOut (task_id task) t)]\<rparr>)"
proof -
  have "fst (tryBlock s f task (emit [Log Verbose (Executing (task_id task))] w)) = Some e"
    by (simp add: tryBlock_rejects [OF assms(1,2)])
  from runClaimed_thrown [OF this] show ?thesis
    by (simp add: tryBlock_rejects [OF assms(1,2)] catchBlock_ok [OF assms(3)] emit_def)
qed

lemma runClaimed_fulfilled:
  assumes "resolveTimeout s task = Inr t"
    and "race (timerWinsTie f) (timerRunsAt f t) (execute task) = BodyFirst (Fulfils v)"
    and "releaseFault f = None"
  shows "runClaimed s f task w =
     (Resolved,
      w\<lparr>rows := updateWhereTaskId (task_id task)
                  (successRelease (completionTime f) (orEmptyString v)) (rows w),
        trace := trace w @
          [Log Verbose (Executing (task_id task)), TimerSet (setTimeoutDelay t),
           BodyInvoked (task_id task), TimerCleared,
           Update (task_id task) (successRelease (completionTime f) (orEmptyString v)),
           Log Verbose (CompletedSuccessfully (task_id task))]\<rparr>)"
proof -
  have "fst (tryBlock s f task (emit [Log Verbose (Executing (task_id task))] w)) = None"
    by (simp add: tryBlock_fulfils [OF assms])
  from runClaimed_completed [OF this] show ?thesis
    by (simp add: tryBlock_fulfils [OF assms] emit_def)
qed


lemma race_BodyFirst:
  "d < setTimeoutDelay t \<Longrightarrow> race tie (timerRunsAt f t) (SettlesAfter d st) = BodyFirst st"
  by (simp add: race_def timerRunsAt_def)


lemma digest_simps [simp]:
  "task_id (digest b) = ''send-digest''"
  "task_timeout (digest b) = Some (Millis 100)"
  "execute (digest b) = b"
  by (simp_all add: digest_def)

lemma errorMessageOf_simps [simp]:
  "errorMessageOf (ErrorInst m) = m"
  "errorMessageOf Undefined = ''Unknown error''"
  "errorMessageOf Null = ''Unknown error''"
  "errorMessageOf (Str x) = ''Unknown error''"
  "errorMessageOf (Num i) = ''Unknown error''"
  "errorMessageOf (Obj ps) = ''Unknown error''"
  by (simp_all add: errorMessageOf_def)

lemma errorMessageOf_unknown:
  "\<forall>m. v \<noteq> ErrorInst m \<Longrightarrow> errorMessageOf v = ''Unknown error''"
  by (cases v) simp_all

lemma getTask_updateWhereTaskId:
  "getTask tid (updateWhereTaskId tid a tb) =
     map_option (\<lambda>r. entityToReport (assign a r)) (find (\<lambda>r. taskId r = tid) tb)"
  by (simp add: getTask_def find_updateWhereTaskId option.map_comp comp_def
      split: option.split)

lemma find_taskId_Some:
  "tid \<in> set (map taskId tb) \<Longrightarrow> \<exists>r. find (\<lambda>r. taskId r = tid) tb = Some r \<and> taskId r = tid"
  by (induction tb) auto

lemma insertOrIgnore_present:
  "tid \<in> set (map taskId tb) \<Longrightarrow> insertOrIgnore s tid tb = tb"
  by (simp add: insertOrIgnore_def)

lemma insertOrIgnore_absent:
  "tid \<notin> set (map taskId tb) \<Longrightarrow> insertOrIgnore s tid tb = tb @ [newRecord s tid]"
  by (simp add: insertOrIgnore_def)

lemma ensure_rows_present:
  assumes "task_id task \<in> set (map taskId (rows w))" and "insertFault f = None"
  shows "fst (ensureTaskIsRegistered s f task w) = None \<and>
     rows (snd (ensureTaskIsRegistered s f task w)) = rows w"
proof (cases "registered w (task_id task)")
  case True
  then show ?thesis by (simp add: ensure_registered)
next
  case False
  then show ?thesis
    using assms by (simp add: ensure_insert insertOrIgnore_present)
qed

lemma runClaimed_resolves:
  assumes "errorReleaseFault f = None"
  shows "fst (runClaimed s f task w) = Resolved"
proof (cases "fst (tryBlock s f task (emit [Log Verbose (Executing (task_id task))] w))")
  case None
  then show ?thesis by (simp add: runClaimed_completed)
next
  case (Some e)
  then show ?thesis by (simp add: runClaimed_thrown catchBlock_ok [OF assms])
qed

subsection \<open>Well-formed tables and the registration map\<close>

lemma rowsOf_one:
  "distinct (map taskId tb) \<Longrightarrow> tid \<in> set (map taskId tb) \<Longrightarrow> length (rowsOf tid tb) = 1"
proof (induction tb)
  case Nil
  then show ?case by simp
next
  case (Cons r tb)
  show ?case
  proof (cases "taskId r = tid")
    case True
    with Cons.prems have "tid \<notin> set (map taskId tb)"
      by auto
    then have "rowsOf tid tb = []"
      by (auto simp: rowsOf_def filter_empty_conv)
    with True show ?thesis
      by (simp add: rowsOf_def)
  next
    case False
    with Cons show ?thesis
      by (simp add: rowsOf_def)
  qed
qed

lemma wellFormed_insertOrIgnore:
  "wellFormed tb \<Longrightarrow> wellFormed (insertOrIgnore s tid tb)"
  by (simp add: wellFormed_def insertOrIgnore_def newRecord_def)

lemma taskId_insertOrIgnore:
  "set (map taskId (insertOrIgnore s tid tb)) = insert tid (set (map taskId tb))"
  by (auto simp: insertOrIgnore_def newRecord_def)

lemma ensure_rows:
  assumes "agrees w (task_id task) (rows w)" and "insertFault f = None"
  shows "fst (ensureTaskIsRegistered s f task w) = None \<and>
     rows (snd (ensureTaskIsRegistered s f task w)) = insertOrIgnore s (task_id task) (rows w)"
proof (cases "registered w (task_id task)")
  case True
  with assms(1) have "task_id task \<in> set (map taskId (rows w))"
    by (simp add: agrees_def)
  with True show ?thesis
    by (simp add: ensure_registered insertOrIgnore_present)
next
  case False
  with assms(2) show ?thesis
    by (simp add: ensure_insert)
qed

lemma registered_ensure:
  "registered (snd (ensureTaskIsRegistered s f task w)) tid \<Longrightarrow>
   registered w tid \<or>
   (tid = task_id task \<and>
    rows (snd (ensureTaskIsRegistered s f task w)) = insertOrIgnore s (task_id task) (rows w))"
  by (cases "insertFault f")
     (auto simp: ensureTaskIsRegistered_def registered_def split: if_splits)

lemma taskIds_ensure:
  "set (map taskId (rows w)) \<subseteq> set (map taskId (rows (snd (ensureTaskIsRegistered s f task w))))"
proof (cases "\<not> registered w (task_id task) \<and> insertFault f = None")
  case True
  then have "rows (snd (ensureTaskIsRegistered s f task w)) =
      insertOrIgnore s (task_id task) (rows w)"
    by (simp add: ensure_insert)
  then show ?thesis
    by (simp only: taskId_insertOrIgnore) blast
next
  case False
  then have "snd (ensureTaskIsRegistered s f task w) = w"
    by (cases "insertFault f") (auto simp: ensureTaskIsRegistered_def)
  then show ?thesis by simp
qed

lemma agrees_ensure:
  assumes "agrees w tid (rows w)"
  shows "agrees (snd (ensureTaskIsRegistered s f task w)) tid
           (rows (snd (ensureTaskIsRegistered s f task w)))"
  unfolding agrees_def
proof
  assume "registered (snd (ensureTaskIsRegistered s f task w)) tid"
  from registered_ensure [OF this]
  show "tid \<in> set (map taskId (rows (snd (ensureTaskIsRegistered s f task w))))"
  proof
    assume "registered w tid"
    with assms have "tid \<in> set (map taskId (rows w))"
      by (simp add: agrees_def)
    with taskIds_ensure [of w s f task] show ?thesis
      by blast
  next
    assume "tid = task_id task \<and>
      rows (snd (ensureTaskIsRegistered s f task w)) = insertOrIgnore s (task_id task) (rows w)"
    then show ?thesis
      by (simp only: taskId_insertOrIgnore) simp
  qed
qed

lemma wellFormed_ensure:
  "wellFormed (rows w) \<Longrightarrow> wellFormed (rows (snd (ensureTaskIsRegistered s f task w)))"
  by (cases "insertFault f")
     (simp_all add: ensureTaskIsRegistered_def wellFormed_insertOrIgnore)

subsection \<open>The callback keeps the table well formed and the map in agreement\<close>

lemma runClaimed_frame:
  "map taskId (rows (snd (runClaimed s f task w))) = map taskId (rows w) \<and>
   tasks (snd (runClaimed s f task w)) = tasks w"
proof (cases "fst (tryBlock s f task (emit [Log Verbose (Executing (task_id task))] w))")
  case None
  from tryBlock_completed [OF None] obtain v where
    "rows (snd (tryBlock s f task (emit [Log Verbose (Executing (task_id task))] w))) =
       updateWhereTaskId (task_id task) (successRelease (completionTime f) v)
         (rows (emit [Log Verbose (Executing (task_id task))] w))"
    and "tasks (snd (tryBlock s f task (emit [Log Verbose (Executing (task_id task))] w))) =
       tasks (emit [Log Verbose (Executing (task_id task))] w)"
    by blast
  then show ?thesis
    unfolding runClaimed_completed [OF None] by simp
next
  case (Some e)
  from tryBlock_thrown [OF Some] show ?thesis
    unfolding runClaimed_thrown [OF Some]
    by (cases "errorReleaseFault f") (simp_all add: catchBlock_ok catchBlock_fails)
qed

lemma claimStep_frame:
  "map taskId (rows (snd (claimStep s f task w))) =
     map taskId (rows (snd (ensureTaskIsRegistered s f task w))) \<and>
   tasks (snd (claimStep s f task w)) = tasks (snd (ensureTaskIsRegistered s f task w))"
proof (cases "fst (ensureTaskIsRegistered s f task w)")
  case None
  then show ?thesis
    by (cases "claimFault f") (simp_all add: claimStep_ok claimStep_claim_fails)
next
  case (Some e)
  then show ?thesis
    by (simp add: claimStep_ensure_fails)
qed

lemma executeTask_frame:
  assumes "\<not> isServer s"
  shows "map taskId (rows (snd (executeTask s f task w))) =
       map taskId (rows (snd (ensureTaskIsRegistered s f task w))) \<and>
     tasks (snd (executeTask s f task w)) = tasks (snd (ensureTaskIsRegistered s f task w))"
proof (cases "fst (claimStep s f task w)")
  case (Inl e)
  with assms claimStep_frame [of s f task w] show ?thesis
    by (simp add: executeTask_rejected)
next
  case (Inr n)
  show ?thesis
  proof (cases "n = 0")
    case True
    with Inr assms claimStep_frame [of s f task w] show ?thesis
      by (simp add: executeTask_not_claimed)
  next
    case False
    from executeTask_claimed [OF assms Inr False] claimStep_frame [of s f task w]
      runClaimed_frame [of s f task "snd (claimStep s f task w)"]
    show ?thesis by simp
  qed
qed

lemma frame_invariant:
  assumes "map taskId (rows w') = map taskId (rows w)" and "tasks w' = tasks w"
  shows "wellFormed (rows w') = wellFormed (rows w)"
    and "agrees w' tid (rows w') = agrees w tid (rows w)"
  using assms by (simp_all add: wellFormed_def agrees_def registered_def)

lemma executeTask_invariant:
  assumes "wellFormed (rows w)" and "agrees w tid (rows w)"
  shows "wellFormed (rows (snd (executeTask s f task w))) \<and>
     agrees (snd (executeTask s f task w)) tid (rows (snd (executeTask s f task w)))"
proof (cases "isServer s")
  case True
  with assms show ?thesis by (simp add: executeTask_server)
next
  case False
  from executeTask_frame [OF False, of f task w]
  have m: "map taskId (rows (snd (executeTask s f task w))) =
      map taskId (rows (snd (ensureTaskIsRegistered s f task w)))"
    and t: "tasks (snd (executeTask s f task w)) = tasks (snd (ensureTaskIsRegistered s f task w))"
    by simp_all
  from frame_invariant [OF m t]
    wellFormed_ensure [OF assms(1), of s f task] agrees_ensure [OF assms(2), of s f task]
  show ?thesis by blast
qed

lemma blank_invariant: "wellFormed tb \<Longrightarrow> wellFormed (rows (blank tb)) \<and> agrees (blank tb) tid tb"
  by (simp add: blank_def agrees_def registered_def)

subsection \<open>The body is invoked once the timeout has been resolved\<close>

lemma tryBlock_invokes_body:
  "resolveTimeout s task = Inr t \<Longrightarrow>
   BodyInvoked (task_id task) \<in> set (trace (snd (tryBlock s f task w)))"
  by (rule tryBlock_cases [where s = s and task = task and f = f])
     (simp_all add: tryBlock_timer tryBlock_rejects tryBlock_release_fails tryBlock_fulfils)

lemma catchBlock_keeps_trace:
  "set (trace w) \<subseteq> set (trace (snd (catchBlock f task e w)))"
  by (cases "errorReleaseFault f") (simp_all add: catchBlock_ok catchBlock_fails, blast+)

lemma runClaimed_invokes_body:
  assumes "resolveTimeout s task = Inr t"
  shows "BodyInvoked (task_id task) \<in> set (trace (snd (runClaimed s f task w)))"
proof (cases "fst (tryBlock s f task (emit [Log Verbose (Executing (task_id task))] w))")
  case None
  from tryBlock_invokes_body [OF assms] show ?thesis
    unfolding runClaimed_completed [OF None] by simp
next
  case (Some e)
  from tryBlock_invokes_body [OF assms]
    catchBlock_keeps_trace
      [of "snd (tryBlock s f task (emit [Log Verbose (Executing (task_id task))] w))" f task e]
  show ?thesis
    unfolding runClaimed_thrown [OF Some] by blast
qed

subsection \<open>When the try throws\<close>

lemma tryBlock_throws_iff:
  "(\<exists>x. fst (tryBlock s f task w) = Some x) \<longleftrightarrow>
     (\<exists>e. resolveTimeout s task = Inl e) \<or>
     (\<exists>t. resolveTimeout s task = Inr t \<and>
        (race (timerWinsTie f) (timerRunsAt f t) (execute task) = TimerFirst \<or>
         (\<exists>e. race (timerWinsTie f) (timerRunsAt f t) (execute task) = BodyFirst (Rejects e)) \<or>
         (\<exists>v e. race (timerWinsTie f) (timerRunsAt f t) (execute task) = BodyFirst (Fulfils v) \<and>
                releaseFault f = Some e)))"
  by (rule tryBlock_cases [where s = s and task = task and f = f])
     (simp_all add: tryBlock_ms_throws tryBlock_timer tryBlock_rejects tryBlock_release_fails
        tryBlock_fulfils)

section \<open>The claims\<close>

text \<open>
  C1 (mutual exclusion). Whatever the table holds, when any number of processes send the
  claim statement for the same task (the conditional update that sets \<open>lockedAt\<close> where
  \<open>taskId\<close> matches and \<open>lockedAt\<close> is null), the database executing them one at a
  time in any order, at most one of them sees a row affected. When a row of the task had
  a null \<open>lockedAt\<close> and at least one statement reached the database, exactly one
  process sees a row affected and every other sees none. Afterwards no row of the task
  has a null \<open>lockedAt\<close>, so no later claim can succeed before a release.
\<close>

theorem C1_at_most_one_claim_succeeds:
  "winners task fs tb \<le> 1 \<and>
   ((\<exists>r\<in>set tb. claimable (task_id task) r) \<and> (\<exists>f\<in>set fs. claimFault f = None) \<longrightarrow>
      winners task fs tb = 1) \<and>
   ((\<exists>f\<in>set fs. claimFault f = None) \<longrightarrow>
      (\<forall>r\<in>set (fst (claimAll task fs tb)). taskId r = task_id task \<longrightarrow> lockedAt r \<noteq> None))"
proof (intro conjI impI)
  show "winners task fs tb \<le> 1"
    by (rule winners_le)
next
  assume "(\<exists>r\<in>set tb. claimable (task_id task) r) \<and> (\<exists>f\<in>set fs. claimFault f = None)"
  then show "winners task fs tb = 1"
    by (simp add: winners_one)
next
  assume "\<exists>f\<in>set fs. claimFault f = None"
  from claimAll_locked [OF this, of task tb]
  show "\<forall>r\<in>set (fst (claimAll task fs tb)). taskId r = task_id task \<longrightarrow> lockedAt r \<noteq> None"
    by (simp add: claimable_def)
qed

text \<open>
  Three processes fire \<open>send-digest\<close> against an idle row: one claim succeeds, and the
  row is locked.
\<close>

theorem C1_witness:
  "claimable ''send-digest'' (idle True) \<and> claimFault calm = None \<and>
   winners (digest NeverSettles) [calm, calm, calm] [idle True] = 1 \<and>
   map lockedAt (fst (claimAll (digest NeverSettles) [calm, calm, calm] [idle True])) = [Some 1000]"
proof -
  have a: "\<exists>r\<in>set [idle True]. claimable (task_id (digest NeverSettles)) r"
    by (simp add: claimable_def idle_def digest_def)
  have b: "\<exists>f\<in>set [calm, calm, calm]. claimFault f = None"
    by (simp add: calm_def)
  have c: "winners (digest NeverSettles) [calm, calm, calm] [idle True] = 1"
    using C1_at_most_one_claim_succeeds [of "digest NeverSettles" "[calm, calm, calm]" "[idle True]"] a b
    by blast
  have d: "map lockedAt (fst (claimAll (digest NeverSettles) [calm, calm, calm] [idle True])) = [Some 1000]"
    by (simp add: claimLease_def tryClaim_def claimable_def blank_def emit_def calm_def
        digest_def idle_def)
  show ?thesis
    using c d by (simp add: claimable_def idle_def calm_def)
qed

text \<open>
  C2 (the lease is released on every path). On a worker, for every attempt whose claim
  affected a row, whatever the task body does (it fulfils, it rejects, it is cut off by
  the timer, or the timeout cannot even be resolved) and provided the two release
  statements are executed by the database: the callback resolves, the last statement it
  wrote is an update of the task that sets \<open>lockedAt\<close> to null, and afterwards there
  is a row of the task and every such row has a null \<open>lockedAt\<close>.
\<close>

theorem C2_lease_released_on_every_path:
  assumes "\<not> isServer s"
    and "fst (claimStep s f task w) = Inr n"
    and "n \<noteq> 0"
    and "releaseFault f = None"
    and "errorReleaseFault f = None"
  shows "fst (executeTask s f task w) = Resolved \<and>
     rowsOf (task_id task) (rows (snd (executeTask s f task w))) \<noteq> [] \<and>
     (\<forall>r\<in>set (rowsOf (task_id task) (rows (snd (executeTask s f task w)))). lockedAt r = None) \<and>
     (\<exists>a. set_lockedAt a = Some None \<and>
        writes (trace (snd (executeTask s f task w))) =
          writes (trace (snd (claimStep s f task w))) @ [Update (task_id task) a])"
proof -
  have run: "executeTask s f task w = runClaimed s f task (snd (claimStep s f task w))"
    using assms(1-3) by (rule executeTask_claimed)
  note rel = runClaimed_releases [OF assms(4,5), of s task "snd (claimStep s f task w)"]
  have "task_id task \<in> set (map taskId (rows (snd (claimStep s f task w))))"
    using assms(2,3) by (rule claimStep_has_row)
  with rel have "rowsOf (task_id task) (rows (snd (executeTask s f task w))) \<noteq> []"
    unfolding run rowsOf_nonempty by simp
  moreover have "\<forall>r\<in>set (rowsOf (task_id task) (rows (snd (executeTask s f task w)))). lockedAt r = None"
    using rel unfolding run by (simp add: set_rowsOf)
  ultimately show ?thesis
    using rel unfolding run by blast
qed

text \<open>
  The three outcomes on an idle row: the body fulfils after 10 ms, it rejects after
  10 ms, it never settles (timeout 100 ms). Each time the row ends with a null
  \<open>lockedAt\<close>.
\<close>

theorem C2_witness:
  "\<not> isServer worker \<and> releaseFault calm = None \<and> errorReleaseFault calm = None \<and>
   fst (claimStep worker calm (digest NeverSettles) (blank [idle True])) = Inr 1 \<and>
   fst (executeTask worker calm (digest NeverSettles) (blank [idle True])) = Resolved \<and>
   map lockedAt (rows (snd (executeTask worker calm (digest NeverSettles) (blank [idle True]))))
     = [None] \<and>
   map lockedAt (rows (snd (executeTask worker calm
       (digest (SettlesAfter 10 (Fulfils (Str ''sent:42'')))) (blank [idle True])))) = [None] \<and>
   map lockedAt (rows (snd (executeTask worker calm
       (digest (SettlesAfter 10 (Rejects (ErrorInst ''boom'')))) (blank [idle True])))) = [None]"
proof -
  have h1: "\<not> isServer worker"
    by (simp add: worker_def)
  have h2: "fst (claimStep worker calm (digest NeverSettles) (blank [idle True])) = Inr 1"
    by (simp add: claimStep_def ensureTaskIsRegistered_def registered_def insertOrIgnore_def
        claimLease_def tryClaim_def claimable_def blank_def calm_def digest_def idle_def)
  have h3: "(1::nat) \<noteq> 0"
    by simp
  have h4: "releaseFault calm = None" and h5: "errorReleaseFault calm = None"
    by (simp_all add: calm_def)
  have "fst (executeTask worker calm (digest NeverSettles) (blank [idle True])) = Resolved"
    using C2_lease_released_on_every_path [OF h1 h2 h3 h4 h5] by simp
  moreover have "map lockedAt (rows (snd (executeTask worker calm (digest b) (blank [idle True]))))
      = [None]" for b
    by (cases b rule: body_behaviour.exhaust)
       (simp_all add: executeTask_def runClaimed_def tryBlock_def catchBlock_def
        resolveTimeout_def setTimeoutDelay_def timerRunsAt_def race_def updateWhereTaskId_def
        claimStep_def ensureTaskIsRegistered_def registered_def insertOrIgnore_def
        claimLease_def tryClaim_def claimable_def blank_def calm_def digest_def idle_def
        worker_def split: settlement.splits)
  ultimately show ?thesis
    using h1 h2 h4 h5 by simp
qed

text \<open>
  C3 (disabled tasks), as the claim states it: firing a task whose row has
  \<open>enabled = false\<close> never sets \<open>lockedAt\<close>. The claim statement tests only
  \<open>taskId\<close> and \<open>lockedAt\<close>. Firing \<open>send-digest\<close> on a worker against its idle,
  disabled row sets \<open>lockedAt\<close> to the firing time, and the callback goes on to invoke
  the body.
\<close>

theorem C3_counterexample:
  "enabled (idle False) = False \<and>
   rows (snd (claimStep worker calm (digest NeverSettles) (blank [idle False]))) =
     [(idle False)\<lparr>lockedAt := Some 1000\<rparr>] \<and>
   BodyInvoked ''send-digest'' \<in>
     set (trace (snd (executeTask worker calm (digest NeverSettles) (blank [idle False]))))"
  by (simp add: executeTask_def runClaimed_def tryBlock_def catchBlock_def
      resolveTimeout_def setTimeoutDelay_def timerRunsAt_def race_def updateWhereTaskId_def
      claimStep_def ensureTaskIsRegistered_def registered_def insertOrIgnore_def
      claimLease_def tryClaim_def claimable_def blank_def calm_def idle_def worker_def)

text \<open>
  C3, amended. The claim step does not look at \<open>enabled\<close>: for every row of the task,
  enabled or not, whose \<open>lockedAt\<close> is null, when the insert and the claim statement
  are executed the claim affects at least one row, that row gets \<open>lockedAt\<close> set to
  the firing time (the table changes in exactly the rows of the task with a null
  \<open>lockedAt\<close>), and no \<open>enabled\<close> flag is changed. On a worker whose timeout
  setting resolves to a duration, the callback then goes on to invoke the body.
\<close>

theorem C3_claim_does_not_consult_enabled:
  assumes "r \<in> set (rows w)"
    and "taskId r = task_id task"
    and "lockedAt r = None"
    and "insertFault f = None"
    and "claimFault f = None"
  shows "(\<exists>n. fst (claimStep s f task w) = Inr n \<and> n \<noteq> 0) \<and>
     rows (snd (claimStep s f task w)) =
       map (\<lambda>x. if taskId x = task_id task \<and> lockedAt x = None
                 then x\<lparr>lockedAt := Some (claimTime f)\<rparr> else x) (rows w) \<and>
     r\<lparr>lockedAt := Some (claimTime f)\<rparr> \<in> set (rows (snd (claimStep s f task w))) \<and>
     enabled (r\<lparr>lockedAt := Some (claimTime f)\<rparr>) = enabled r \<and>
     map enabled (rows (snd (claimStep s f task w))) = map enabled (rows w) \<and>
     (\<not> isServer s \<and> resolveTimeout s task = Inr t \<longrightarrow>
        BodyInvoked (task_id task) \<in> set (trace (snd (executeTask s f task w))))"
proof -
  have "task_id task \<in> set (map taskId (rows w))"
    using assms(1,2) by force
  from ensure_rows_present [OF this assms(4)]
  have e: "fst (ensureTaskIsRegistered s f task w) = None"
    and same: "rows (snd (ensureTaskIsRegistered s f task w)) = rows w"
    by simp_all
  note step = claimStep_ok [OF e assms(5)]
  have c: "claimable (task_id task) r"
    using assms(2,3) by (simp add: claimable_def)
  with assms(1) have nz: "snd (tryClaim (task_id task) (claimTime f) (rows w)) \<noteq> 0"
    unfolding tryClaim_count by blast
  have fst_step: "fst (claimStep s f task w) =
      Inr (snd (tryClaim (task_id task) (claimTime f) (rows w)))"
    by (simp add: step same)
  have n: "\<exists>n. fst (claimStep s f task w) = Inr n \<and> n \<noteq> 0"
    using nz fst_step by simp
  have rows: "rows (snd (claimStep s f task w)) =
       map (\<lambda>x. if taskId x = task_id task \<and> lockedAt x = None
                 then x\<lparr>lockedAt := Some (claimTime f)\<rparr> else x) (rows w)"
    by (simp add: step same tryClaim_def claimable_def)
  have "r\<lparr>lockedAt := Some (claimTime f)\<rparr> \<in> set (rows (snd (claimStep s f task w)))"
    unfolding rows using assms(1-3) by (force simp: image_iff)
  moreover have "map enabled (rows (snd (claimStep s f task w))) = map enabled (rows w)"
    by (simp add: step same)
  moreover have "\<not> isServer s \<and> resolveTimeout s task = Inr t \<longrightarrow>
        BodyInvoked (task_id task) \<in> set (trace (snd (executeTask s f task w)))"
  proof
    assume a: "\<not> isServer s \<and> resolveTimeout s task = Inr t"
    then have "executeTask s f task w = runClaimed s f task (snd (claimStep s f task w))"
      using fst_step nz by (simp add: executeTask_claimed)
    with a show "BodyInvoked (task_id task) \<in> set (trace (snd (executeTask s f task w)))"
      by (simp add: runClaimed_invokes_body)
  qed
  ultimately show ?thesis
    using n rows by simp
qed

text \<open>
  The idle, disabled row of \<open>send-digest\<close> is claimed at the firing time and stays
  disabled, and the body is invoked.
\<close>

theorem C3_witness:
  "idle False \<in> set (rows (blank [idle False])) \<and>
   taskId (idle False) = task_id (digest NeverSettles) \<and> lockedAt (idle False) = None \<and>
   enabled (idle False) = False \<and> insertFault calm = None \<and> claimFault calm = None \<and>
   \<not> isServer worker \<and> resolveTimeout worker (digest NeverSettles) = Inr (Some 100) \<and>
   (idle False)\<lparr>lockedAt := Some (claimTime calm)\<rparr> \<in>
     set (rows (snd (claimStep worker calm (digest NeverSettles) (blank [idle False])))) \<and>
   map enabled (rows (snd (claimStep worker calm (digest NeverSettles) (blank [idle False]))))
     = [False] \<and>
   BodyInvoked (task_id (digest NeverSettles)) \<in>
     set (trace (snd (executeTask worker calm (digest NeverSettles) (blank [idle False]))))"
proof -
  have h1: "idle False \<in> set (rows (blank [idle False]))"
    by (simp add: blank_def)
  have h2: "taskId (idle False) = task_id (digest NeverSettles)"
    by (simp add: idle_def)
  have h3: "lockedAt (idle False) = None" and en: "enabled (idle False) = False"
    by (simp_all add: idle_def)
  have h4: "insertFault calm = None" and h5: "claimFault calm = None"
    by (simp_all add: calm_def)
  have h6: "\<not> isServer worker"
    by (simp add: worker_def)
  have h7: "resolveTimeout worker (digest NeverSettles) = Inr (Some 100)"
    by (simp add: resolveTimeout_def)
  note c3 = C3_claim_does_not_consult_enabled [OF h1 h2 h3 h4 h5, of worker "Some 100"]
  have "map enabled (rows (snd (claimStep worker calm (digest NeverSettles) (blank [idle False]))))
      = map enabled (rows (blank [idle False]))"
    using c3 by blast
  then have m: "map enabled (rows (snd (claimStep worker calm (digest NeverSettles)
      (blank [idle False])))) = [False]"
    by (simp add: blank_def en)
  have b: "BodyInvoked (task_id (digest NeverSettles)) \<in>
     set (trace (snd (executeTask worker calm (digest NeverSettles) (blank [idle False]))))"
    using c3 h6 h7 by blast
  show ?thesis
    using c3 h1 h2 h3 en h4 h5 h6 h7 m b by blast
qed

text \<open>
  C4 (what the release of a failed attempt writes). The claim says that the release of
  a failed or timed-out attempt sets \<open>lastExecutedAt\<close> to the time of completion, as
  the release of a successful attempt does. The update of the catch assigns only
  \<open>lockedAt\<close> and \<open>lastResult\<close>. On a row last executed at 500: after the body has
  rejected with \<open>Error("boom")\<close>, and after a timeout, the row has the failure record
  and a null \<open>lockedAt\<close> but still \<open>lastExecutedAt = 500\<close>; after a success it has
  the completion time 1010.
\<close>

theorem C4_failure_release_keeps_lastExecutedAt:
  "rows (snd (executeTask worker calm (digest (SettlesAfter 10 (Rejects (ErrorInst ''boom''))))
            (blank [(idle True)\<lparr>lastExecutedAt := Some 500\<rparr>]))) =
     [(idle True)\<lparr>lastExecutedAt := Some 500, lastResult := Obj [(''error'', Str ''boom'')]\<rparr>] \<and>
   rows (snd (executeTask worker calm (digest NeverSettles)
            (blank [(idle True)\<lparr>lastExecutedAt := Some 500\<rparr>]))) =
     [(idle True)\<lparr>lastExecutedAt := Some 500,
                  lastResult := Obj [(''error'', Str ''Task timed out'')]\<rparr>] \<and>
   rows (snd (executeTask worker calm (digest (SettlesAfter 10 (Fulfils (Str ''sent:42''))))
            (blank [(idle True)\<lparr>lastExecutedAt := Some 500\<rparr>]))) =
     [(idle True)\<lparr>lastExecutedAt := Some 1010, lastResult := Str ''sent:42''\<rparr>] \<and>
   set_lastExecutedAt (failureRelease ''boom'') = None"
  by (simp add: executeTask_def runClaimed_def tryBlock_def catchBlock_def
      resolveTimeout_def setTimeoutDelay_def timerRunsAt_def race_def updateWhereTaskId_def assign_def
      successRelease_def failureRelease_def orEmptyString_def
      claimStep_def ensureTaskIsRegistered_def registered_def insertOrIgnore_def
      claimLease_def tryClaim_def claimable_def blank_def calm_def idle_def worker_def)

text \<open>
  C5 (containment), as the claim states it: the callback never rejects, whatever the
  database does. The insert of the registration and the claim update are awaited before
  the \<open>try\<close>: when the database rejects the insert, or the claim, the callback rejects
  with the same value.
\<close>

theorem C5_counterexample:
  "fst (executeTask worker (calm\<lparr>insertFault := Some (ErrorInst ''StoreUnavailable'')\<rparr>)
          (digest NeverSettles) (blank [])) = Rejected (ErrorInst ''StoreUnavailable'') \<and>
   fst (executeTask worker (calm\<lparr>claimFault := Some (ErrorInst ''StoreUnavailable'')\<rparr>)
          (digest NeverSettles) (blank [])) = Rejected (ErrorInst ''StoreUnavailable'')"
  by (simp add: executeTask_def claimStep_def ensureTaskIsRegistered_def registered_def
      insertOrIgnore_def claimLease_def blank_def calm_def worker_def)

text \<open>
  C5, amended. For every firing, every behaviour of the task body and every timeout
  configuration, the callback resolves as long as the database executes the insert, the
  claim update and the release update of the catch; a rejection of the release update
  of the try is contained, since the catch handles it. A rejection by the database is
  not contained in three places, where the callback of a worker rejects with the same
  value: the insert (sent when the process has not registered the task yet), the claim
  update (sent once the process has registered the task or the insert has been
  executed), and the release update of the catch (sent when the lease was claimed and
  the try has thrown; \<open>tryBlock_throws_iff\<close> lists when it does).
\<close>

theorem C5_contained_unless_the_store_fails:
  "(insertFault f = None \<and> claimFault f = None \<and> errorReleaseFault f = None \<longrightarrow>
      fst (executeTask s f task w) = Resolved) \<and>
   (\<not> isServer s \<and> \<not> registered w (task_id task) \<and> insertFault f = Some e \<longrightarrow>
      executeTask s f task w = (Rejected e, w)) \<and>
   (\<not> isServer s \<and> (registered w (task_id task) \<or> insertFault f = None) \<and>
    claimFault f = Some e \<longrightarrow>
      fst (executeTask s f task w) = Rejected e) \<and>
   (\<not> isServer s \<and> fst (claimStep s f task w) = Inr n \<and> n \<noteq> 0 \<and>
    fst (tryBlock s f task
           (emit [Log Verbose (Executing (task_id task))] (snd (claimStep s f task w)))) = Some x \<and>
    errorReleaseFault f = Some e \<longrightarrow>
      fst (executeTask s f task w) = Rejected e)"
proof (intro conjI impI)
  assume a: "insertFault f = None \<and> claimFault f = None \<and> errorReleaseFault f = None"
  then have e: "fst (ensureTaskIsRegistered s f task w) = None"
    by (simp add: ensure_no_fault)
  from a have c: "claimFault f = None" and r: "errorReleaseFault f = None"
    by simp_all
  show "fst (executeTask s f task w) = Resolved"
  proof (cases "isServer s")
    case True
    then show ?thesis by (simp add: executeTask_server)
  next
    case False
    show ?thesis
    proof (cases "snd (tryClaim (task_id task) (claimTime f)
        (rows (snd (ensureTaskIsRegistered s f task w)))) = 0")
      case True
      then have "fst (claimStep s f task w) = Inr 0"
        by (simp add: claimStep_ok [OF e c])
      with False show ?thesis by (simp add: executeTask_not_claimed)
    next
      case nz: False
      have "fst (claimStep s f task w) = Inr (snd (tryClaim (task_id task) (claimTime f)
          (rows (snd (ensureTaskIsRegistered s f task w)))))"
        by (simp add: claimStep_ok [OF e c])
      from executeTask_claimed [OF False this nz] show ?thesis
        by (simp add: runClaimed_resolves [OF r])
    qed
  qed
next
  assume a: "\<not> isServer s \<and> \<not> registered w (task_id task) \<and> insertFault f = Some e"
  then have "ensureTaskIsRegistered s f task w = (Some e, w)"
    by (simp add: ensure_fault)
  then have "claimStep s f task w = (Inl e, w)"
    by (simp add: claimStep_ensure_fails)
  with a show "executeTask s f task w = (Rejected e, w)"
    by (simp add: executeTask_rejected)
next
  assume a: "\<not> isServer s \<and> (registered w (task_id task) \<or> insertFault f = None) \<and>
    claimFault f = Some e"
  then have "fst (ensureTaskIsRegistered s f task w) = None"
    by (cases "registered w (task_id task)") (simp_all add: ensure_registered ensure_no_fault)
  with a have "fst (claimStep s f task w) = Inl e"
    by (simp add: claimStep_claim_fails)
  with a show "fst (executeTask s f task w) = Rejected e"
    by (simp add: executeTask_rejected)
next
  assume a: "\<not> isServer s \<and> fst (claimStep s f task w) = Inr n \<and> n \<noteq> 0 \<and>
    fst (tryBlock s f task
           (emit [Log Verbose (Executing (task_id task))] (snd (claimStep s f task w)))) = Some x \<and>
    errorReleaseFault f = Some e"
  then have a1: "\<not> isServer s" and a2: "fst (claimStep s f task w) = Inr n" and a3: "n \<noteq> 0"
    and a4: "fst (tryBlock s f task
           (emit [Log Verbose (Executing (task_id task))] (snd (claimStep s f task w)))) = Some x"
    and a5: "errorReleaseFault f = Some e"
    by blast+
  show "fst (executeTask s f task w) = Rejected e"
    unfolding executeTask_claimed [OF a1 a2 a3] runClaimed_thrown [OF a4]
    by (simp add: catchBlock_fails [OF a5])
qed

text \<open>
  With the database answering, a body that rejects and a release of the try that is
  refused are both contained; a refused insert is not, nor a refused claim, nor a
  refused release of the catch after the body has rejected.
\<close>

theorem C5_witness:
  "insertFault calm = None \<and> claimFault calm = None \<and> errorReleaseFault calm = None \<and>
   fst (executeTask worker calm (digest (SettlesAfter 10 (Rejects (ErrorInst ''boom''))))
          (blank [])) = Resolved \<and>
   fst (executeTask worker (calm\<lparr>releaseFault := Some (ErrorInst ''StoreUnavailable'')\<rparr>)
          (digest (SettlesAfter 10 (Fulfils (Str ''ok'')))) (blank [])) = Resolved \<and>
   \<not> isServer worker \<and> \<not> registered (blank []) ''send-digest'' \<and>
   executeTask worker (calm\<lparr>insertFault := Some (ErrorInst ''StoreUnavailable'')\<rparr>)
     (digest NeverSettles) (blank []) = (Rejected (ErrorInst ''StoreUnavailable''), blank []) \<and>
   fst (executeTask worker (calm\<lparr>claimFault := Some (ErrorInst ''StoreUnavailable'')\<rparr>)
          (digest NeverSettles) (blank [])) = Rejected (ErrorInst ''StoreUnavailable'') \<and>
   fst (claimStep worker (calm\<lparr>errorReleaseFault := Some (ErrorInst ''StoreUnavailable'')\<rparr>)
          (digest (SettlesAfter 10 (Rejects (ErrorInst ''boom'')))) (blank [])) = Inr 1 \<and>
   fst (executeTask worker (calm\<lparr>errorReleaseFault := Some (ErrorInst ''StoreUnavailable'')\<rparr>)
          (digest (SettlesAfter 10 (Rejects (ErrorInst ''boom'')))) (blank []))
     = Rejected (ErrorInst ''StoreUnavailable'')"
proof -
  have h: "insertFault calm = None" "claimFault calm = None" "errorReleaseFault calm = None"
    by (simp_all add: calm_def)
  have h': "insertFault (calm\<lparr>releaseFault := Some (ErrorInst ''StoreUnavailable'')\<rparr>) = None"
    "claimFault (calm\<lparr>releaseFault := Some (ErrorInst ''StoreUnavailable'')\<rparr>) = None"
    "errorReleaseFault (calm\<lparr>releaseFault := Some (ErrorInst ''StoreUnavailable'')\<rparr>) = None"
    by (simp_all add: calm_def)
  have s: "\<not> isServer worker"
    by (simp add: worker_def)
  have n: "\<not> registered (blank []) ''send-digest''"
    by (simp add: registered_def blank_def)
  have i: "insertFault (calm\<lparr>insertFault := Some (ErrorInst ''StoreUnavailable'')\<rparr>)
      = Some (ErrorInst ''StoreUnavailable'')"
    by simp
  have 1: "fst (executeTask worker calm (digest (SettlesAfter 10 (Rejects (ErrorInst ''boom''))))
          (blank [])) = Resolved"
    using C5_contained_unless_the_store_fails
      [of calm worker "digest (SettlesAfter 10 (Rejects (ErrorInst ''boom'')))" "blank []"] h
    by blast
  have 2: "fst (executeTask worker (calm\<lparr>releaseFault := Some (ErrorInst ''StoreUnavailable'')\<rparr>)
          (digest (SettlesAfter 10 (Fulfils (Str ''ok'')))) (blank [])) = Resolved"
    using C5_contained_unless_the_store_fails
      [of "calm\<lparr>releaseFault := Some (ErrorInst ''StoreUnavailable'')\<rparr>" worker
          "digest (SettlesAfter 10 (Fulfils (Str ''ok'')))" "blank []"] h'
    by blast
  have 3: "executeTask worker (calm\<lparr>insertFault := Some (ErrorInst ''StoreUnavailable'')\<rparr>)
     (digest NeverSettles) (blank []) = (Rejected (ErrorInst ''StoreUnavailable''), blank [])"
    using C5_contained_unless_the_store_fails
      [of "calm\<lparr>insertFault := Some (ErrorInst ''StoreUnavailable'')\<rparr>" worker
          "digest NeverSettles" "blank []" "ErrorInst ''StoreUnavailable''"] s n i
    by simp
  have j: "registered (blank []) (task_id (digest NeverSettles)) \<or>
      insertFault (calm\<lparr>claimFault := Some (ErrorInst ''StoreUnavailable'')\<rparr>) = None"
    "claimFault (calm\<lparr>claimFault := Some (ErrorInst ''StoreUnavailable'')\<rparr>)
      = Some (ErrorInst ''StoreUnavailable'')"
    by (simp_all add: calm_def)
  have 5: "fst (executeTask worker (calm\<lparr>claimFault := Some (ErrorInst ''StoreUnavailable'')\<rparr>)
          (digest NeverSettles) (blank [])) = Rejected (ErrorInst ''StoreUnavailable'')"
    using C5_contained_unless_the_store_fails
      [of "calm\<lparr>claimFault := Some (ErrorInst ''StoreUnavailable'')\<rparr>" worker
          "digest NeverSettles" "blank []" "ErrorInst ''StoreUnavailable''"] s j
    by blast
  have c: "fst (claimStep worker (calm\<lparr>errorReleaseFault := Some (ErrorInst ''StoreUnavailable'')\<rparr>)
          (digest (SettlesAfter 10 (Rejects (ErrorInst ''boom'')))) (blank [])) = Inr 1"
    by (simp add: claimStep_def ensureTaskIsRegistered_def registered_def insertOrIgnore_def
        newRecord_def claimLease_def tryClaim_def claimable_def blank_def calm_def)
  have t: "fst (tryBlock worker (calm\<lparr>errorReleaseFault := Some (ErrorInst ''StoreUnavailable'')\<rparr>)
      (digest (SettlesAfter 10 (Rejects (ErrorInst ''boom''))))
      (emit [Log Verbose (Executing (task_id (digest (SettlesAfter 10 (Rejects (ErrorInst ''boom''))))))]
        (snd (claimStep worker (calm\<lparr>errorReleaseFault := Some (ErrorInst ''StoreUnavailable'')\<rparr>)
          (digest (SettlesAfter 10 (Rejects (ErrorInst ''boom'')))) (blank []))))) =
      Some (ErrorInst ''boom'')"
    by (simp add: tryBlock_def resolveTimeout_def setTimeoutDelay_def timerRunsAt_def race_def
        calm_def)
  have x: "errorReleaseFault (calm\<lparr>errorReleaseFault := Some (ErrorInst ''StoreUnavailable'')\<rparr>)
      = Some (ErrorInst ''StoreUnavailable'')"
    by simp
  have 4: "fst (executeTask worker (calm\<lparr>errorReleaseFault := Some (ErrorInst ''StoreUnavailable'')\<rparr>)
          (digest (SettlesAfter 10 (Rejects (ErrorInst ''boom'')))) (blank []))
     = Rejected (ErrorInst ''StoreUnavailable'')"
    using C5_contained_unless_the_store_fails
      [of "calm\<lparr>errorReleaseFault := Some (ErrorInst ''StoreUnavailable'')\<rparr>" worker
          "digest (SettlesAfter 10 (Rejects (ErrorInst ''boom'')))" "blank []"
          "ErrorInst ''StoreUnavailable''" 1 "ErrorInst ''boom''"] s c t x
    by simp
  show ?thesis
    using h s n 1 2 3 5 c 4 by blast
qed




text \<open>
  C7 (a failed claim is a silent abort). On a worker, when the claim update affects no
  row, the callback resolves at once: the table is the one the registration left, the
  callback did nothing but (possibly) the insert and the claim statement itself, so the
  body is not invoked, nothing is logged and no further statement is written, and no
  timer is left behind.
\<close>

theorem C7_failed_claim_aborts_silently:
  assumes "\<not> isServer s"
    and "fst (claimStep s f task w) = Inr 0"
  shows "fst (executeTask s f task w) = Resolved \<and>
     rows (snd (executeTask s f task w)) = rows (snd (ensureTaskIsRegistered s f task w)) \<and>
     trace (snd (executeTask s f task w)) =
       trace (snd (ensureTaskIsRegistered s f task w)) @
         [ClaimUpdate (task_id task) (claimTime f) 0] \<and>
     (trace (snd (ensureTaskIsRegistered s f task w)) = trace w \<or>
      trace (snd (ensureTaskIsRegistered s f task w)) = trace w @ [InsertOrIgnore (task_id task)]) \<and>
     late (snd (executeTask s f task w)) = late w"
proof -
  from claimStep_Inr [OF assms(2)]
  have e: "fst (ensureTaskIsRegistered s f task w) = None" and c: "claimFault f = None"
    by simp_all
  have zero: "snd (tryClaim (task_id task) (claimTime f)
      (rows (snd (ensureTaskIsRegistered s f task w)))) = 0"
    using assms(2) by (simp add: claimStep_ok [OF e c])
  then have "filter (claimable (task_id task)) (rows (snd (ensureTaskIsRegistered s f task w))) = []"
    by (simp add: tryClaim_def)
  then have same: "fst (tryClaim (task_id task) (claimTime f)
      (rows (snd (ensureTaskIsRegistered s f task w)))) = rows (snd (ensureTaskIsRegistered s f task w))"
    by (simp add: tryClaim_none)
  have ens: "(trace (snd (ensureTaskIsRegistered s f task w)) = trace w \<or>
      trace (snd (ensureTaskIsRegistered s f task w)) = trace w @ [InsertOrIgnore (task_id task)]) \<and>
      late (snd (ensureTaskIsRegistered s f task w)) = late w"
    by (cases "insertFault f") (simp_all add: ensureTaskIsRegistered_def)
  show ?thesis
    unfolding executeTask_not_claimed [OF assms]
    using ens zero same by (simp add: claimStep_ok [OF e c])
qed

text \<open>
  A second firing finds the row of \<open>send-digest\<close> locked since 900: the callback sends
  the insert (ignored) and the claim (no row) and stops.
\<close>

theorem C7_witness:
  "\<not> isServer worker \<and>
   fst (claimStep worker calm (digest NeverSettles) (blank [(idle True)\<lparr>lockedAt := Some 900\<rparr>]))
     = Inr 0 \<and>
   fst (executeTask worker calm (digest NeverSettles) (blank [(idle True)\<lparr>lockedAt := Some 900\<rparr>]))
     = Resolved \<and>
   rows (snd (executeTask worker calm (digest NeverSettles)
     (blank [(idle True)\<lparr>lockedAt := Some 900\<rparr>]))) = [(idle True)\<lparr>lockedAt := Some 900\<rparr>] \<and>
   trace (snd (executeTask worker calm (digest NeverSettles)
     (blank [(idle True)\<lparr>lockedAt := Some 900\<rparr>]))) =
     [InsertOrIgnore ''send-digest'', ClaimUpdate ''send-digest'' 1000 0]"
proof -
  have h1: "\<not> isServer worker"
    by (simp add: worker_def)
  have h2: "fst (claimStep worker calm (digest NeverSettles)
      (blank [(idle True)\<lparr>lockedAt := Some 900\<rparr>])) = Inr 0"
    by (simp add: claimStep_def ensureTaskIsRegistered_def registered_def insertOrIgnore_def
        claimLease_def tryClaim_def claimable_def blank_def calm_def digest_def idle_def)
  have h3: "snd (ensureTaskIsRegistered worker calm (digest NeverSettles)
      (blank [(idle True)\<lparr>lockedAt := Some 900\<rparr>])) =
      \<lparr>tasks = [''send-digest'' \<mapsto> True], rows = [(idle True)\<lparr>lockedAt := Some 900\<rparr>],
       trace = [InsertOrIgnore ''send-digest''], late = []\<rparr>"
    by (simp add: ensureTaskIsRegistered_def registered_def insertOrIgnore_def emit_def
        blank_def calm_def digest_def idle_def)
  show ?thesis
    using C7_failed_claim_aborts_silently [OF h1 h2] h1 h2
    by (simp add: h3) (simp add: calm_def digest_def)
qed

text \<open>
  C8 (row creation is idempotent). Take a well-formed table and a process whose map
  agrees with it, and let the database execute the insert. Running
  \<open>ensureTaskIsRegistered\<close> for a task, and then running it again, in the same
  process or in any other process whose map agrees with the table, is never an error;
  the second run leaves the table as the first left it; that table has exactly one row
  for the task and is well formed; when the row already existed the first run left the
  table unchanged, and otherwise it appended one row for the task, with null
  \<open>lockedAt\<close> and null \<open>lastExecutedAt\<close>. After the first run the map of the process
  agrees with the table, so the process itself qualifies for the second run.
\<close>

theorem C8_row_creation_idempotent:
  assumes "wellFormed (rows w)"
    and "agrees w (task_id task) (rows w)"
    and "insertFault f = None"
    and "rows w2 = rows (snd (ensureTaskIsRegistered s f task w))"
    and "agrees w2 (task_id task) (rows w2)"
    and "insertFault f2 = None"
  shows "fst (ensureTaskIsRegistered s f task w) = None \<and>
     fst (ensureTaskIsRegistered s f2 task w2) = None \<and>
     rows (snd (ensureTaskIsRegistered s f2 task w2)) =
       rows (snd (ensureTaskIsRegistered s f task w)) \<and>
     length (rowsOf (task_id task) (rows (snd (ensureTaskIsRegistered s f task w)))) = 1 \<and>
     wellFormed (rows (snd (ensureTaskIsRegistered s f task w))) \<and>
     agrees (snd (ensureTaskIsRegistered s f task w)) (task_id task)
       (rows (snd (ensureTaskIsRegistered s f task w))) \<and>
     (task_id task \<in> set (map taskId (rows w)) \<longrightarrow>
        rows (snd (ensureTaskIsRegistered s f task w)) = rows w) \<and>
     (task_id task \<notin> set (map taskId (rows w)) \<longrightarrow>
        (\<exists>r. rows (snd (ensureTaskIsRegistered s f task w)) = rows w @ [r] \<and>
             taskId r = task_id task \<and> lockedAt r = None \<and> lastExecutedAt r = None))"
proof -
  note once = ensure_rows [OF assms(2,3), of s]
  note twice = ensure_rows [OF assms(5,6), of s]
  have wf: "wellFormed (rows (snd (ensureTaskIsRegistered s f task w)))"
    using assms(1) by (rule wellFormed_ensure)
  have present: "task_id task \<in> set (map taskId (rows (snd (ensureTaskIsRegistered s f task w))))"
    using once by (simp only: taskId_insertOrIgnore) simp
  have "rows (snd (ensureTaskIsRegistered s f2 task w2)) =
      rows (snd (ensureTaskIsRegistered s f task w))"
    using twice present by (simp add: assms(4) insertOrIgnore_present)
  moreover have "length (rowsOf (task_id task) (rows (snd (ensureTaskIsRegistered s f task w)))) = 1"
    using wf present by (simp add: rowsOf_one wellFormed_def)
  moreover have "agrees (snd (ensureTaskIsRegistered s f task w)) (task_id task)
       (rows (snd (ensureTaskIsRegistered s f task w)))"
    using assms(2) by (rule agrees_ensure)
  moreover have "task_id task \<in> set (map taskId (rows w)) \<longrightarrow>
        rows (snd (ensureTaskIsRegistered s f task w)) = rows w"
    using once by (simp add: insertOrIgnore_present)
  moreover have "task_id task \<notin> set (map taskId (rows w)) \<longrightarrow>
        (\<exists>r. rows (snd (ensureTaskIsRegistered s f task w)) = rows w @ [r] \<and>
             taskId r = task_id task \<and> lockedAt r = None \<and> lastExecutedAt r = None)"
    using once by (simp add: insertOrIgnore_absent newRecord_def)
  ultimately show ?thesis
    using once twice wf by blast
qed

text \<open>
  On an empty table: the first run creates the row of \<open>send-digest\<close>; a second run by
  the same process, or by a fresh one, changes nothing.
\<close>

theorem C8_witness:
  "wellFormed (rows (blank [])) \<and> agrees (blank []) ''send-digest'' (rows (blank [])) \<and>
   insertFault calm = None \<and>
   rows (snd (ensureTaskIsRegistered worker calm (digest NeverSettles) (blank []))) = [idle True] \<and>
   agrees (blank [idle True]) ''send-digest'' [idle True] \<and>
   rows (snd (ensureTaskIsRegistered worker calm (digest NeverSettles) (blank [idle True])))
     = [idle True] \<and>
   rows (snd (ensureTaskIsRegistered worker calm (digest NeverSettles)
     (snd (ensureTaskIsRegistered worker calm (digest NeverSettles) (blank [])))))
     = [idle True] \<and>
   length (rowsOf ''send-digest''
     (rows (snd (ensureTaskIsRegistered worker calm (digest NeverSettles) (blank []))))) = 1"
proof -
  have h1: "wellFormed (rows (blank []))"
    by (simp add: wellFormed_def blank_def)
  have h2: "agrees (blank []) (task_id (digest NeverSettles)) (rows (blank []))"
    by (simp add: agrees_def registered_def blank_def)
  have h3: "insertFault calm = None"
    by (simp add: calm_def)
  have once: "rows (snd (ensureTaskIsRegistered worker calm (digest NeverSettles) (blank [])))
      = [idle True]"
    by (simp add: ensureTaskIsRegistered_def registered_def insertOrIgnore_def newRecord_def
        blank_def calm_def worker_def idle_def)
  have h4: "rows (blank [idle True]) =
      rows (snd (ensureTaskIsRegistered worker calm (digest NeverSettles) (blank [])))"
    unfolding once by (simp add: blank_def)
  have h5: "agrees (blank [idle True]) (task_id (digest NeverSettles)) (rows (blank [idle True]))"
    by (simp add: agrees_def registered_def blank_def)
  note other = C8_row_creation_idempotent [OF h1 h2 h3 h4 h5 h3]
  have same: "agrees (snd (ensureTaskIsRegistered worker calm (digest NeverSettles) (blank [])))
      (task_id (digest NeverSettles))
      (rows (snd (ensureTaskIsRegistered worker calm (digest NeverSettles) (blank []))))"
    using other by blast
  note again = C8_row_creation_idempotent [OF h1 h2 h3 refl same h3]
  have a: "rows (snd (ensureTaskIsRegistered worker calm (digest NeverSettles)
      (blank [idle True]))) = [idle True]"
    using other unfolding once by blast
  have b: "rows (snd (ensureTaskIsRegistered worker calm (digest NeverSettles)
     (snd (ensureTaskIsRegistered worker calm (digest NeverSettles) (blank []))))) = [idle True]"
    using again unfolding once by blast
  have c: "length (rowsOf ''send-digest''
     (rows (snd (ensureTaskIsRegistered worker calm (digest NeverSettles) (blank []))))) = 1"
    using other by simp
  show ?thesis
    using h1 h2 h3 h5 once a b c by (simp add: blank_def)
qed

text \<open>
  C9 (reports). \<open>getTasks\<close> maps every row, in order, to
  \<open>{id: taskId, lastExecutedAt, isRunning: lockedAt !== null, lastResult, enabled}\<close>;
  \<open>getTask\<close> finds nothing exactly when no row has the id, and otherwise returns that
  shape for a row with the id; both only read the table. In particular, after an
  attempt on a worker that claims the lease and whose body fulfils with \<open>"ok"\<close> before
  the timer fires, the release being executed, \<open>getTask\<close> reports the task as not
  running, with \<open>lastResult = "ok"\<close> and \<open>lastExecutedAt\<close> set to the time of
  completion.
\<close>

theorem C9_reports_project_the_rows:
  "getTasks tb =
     map (\<lambda>r. \<lparr>report_id = taskId r, report_lastExecutedAt = lastExecutedAt r,
                isRunning = (lockedAt r \<noteq> None), report_lastResult = lastResult r,
                report_enabled = enabled r\<rparr>) tb \<and>
   (getTask i tb = None \<longleftrightarrow> i \<notin> set (map taskId tb)) \<and>
   (\<forall>rep. getTask i tb = Some rep \<longrightarrow>
      (\<exists>r\<in>set tb. taskId r = i \<and>
         rep = \<lparr>report_id = i, report_lastExecutedAt = lastExecutedAt r,
                 isRunning = (lockedAt r \<noteq> None), report_lastResult = lastResult r,
                 report_enabled = enabled r\<rparr>)) \<and>
   (\<not> isServer s \<and> fst (claimStep s f task w) = Inr n \<and> n \<noteq> 0 \<and>
    resolveTimeout s task = Inr t \<and> execute task = SettlesAfter d (Fulfils (Str ''ok'')) \<and>
    d < setTimeoutDelay t \<and> releaseFault f = None \<longrightarrow>
      (\<exists>rep. getTask (task_id task) (rows (snd (executeTask s f task w))) = Some rep \<and>
         report_id rep = task_id task \<and> isRunning rep = False \<and>
         report_lastResult rep = Str ''ok'' \<and>
         report_lastExecutedAt rep = Some (completionTime f)))"
proof (intro conjI allI impI)
  show "getTasks tb =
     map (\<lambda>r. \<lparr>report_id = taskId r, report_lastExecutedAt = lastExecutedAt r,
                isRunning = (lockedAt r \<noteq> None), report_lastResult = lastResult r,
                report_enabled = enabled r\<rparr>) tb"
    by (simp add: getTasks_def entityToReport_def)
next
  show "getTask i tb = None \<longleftrightarrow> i \<notin> set (map taskId tb)"
    using find_taskId_None [of i tb] by (auto simp: getTask_def split: option.splits)
next
  fix rep
  assume "getTask i tb = Some rep"
  then obtain r where "find (\<lambda>task. taskId task = i) tb = Some r" and "rep = entityToReport r"
    by (auto simp: getTask_def split: option.splits)
  then show "\<exists>r\<in>set tb. taskId r = i \<and>
         rep = \<lparr>report_id = i, report_lastExecutedAt = lastExecutedAt r,
                 isRunning = (lockedAt r \<noteq> None), report_lastResult = lastResult r,
                 report_enabled = enabled r\<rparr>"
    by (auto simp: find_Some_iff entityToReport_def)
next
  assume a: "\<not> isServer s \<and> fst (claimStep s f task w) = Inr n \<and> n \<noteq> 0 \<and>
    resolveTimeout s task = Inr t \<and> execute task = SettlesAfter d (Fulfils (Str ''ok'')) \<and>
    d < setTimeoutDelay t \<and> releaseFault f = None"
  then have a1: "\<not> isServer s" and a2: "fst (claimStep s f task w) = Inr n" and a3: "n \<noteq> 0"
    and a4: "resolveTimeout s task = Inr t"
    and a5: "execute task = SettlesAfter d (Fulfils (Str ''ok''))"
    and a6: "d < setTimeoutDelay t" and a7: "releaseFault f = None"
    by blast+
  have body: "race (timerWinsTie f) (timerRunsAt f t) (execute task)
      = BodyFirst (Fulfils (Str ''ok''))"
    unfolding a5 using a6 by (rule race_BodyFirst)
  have run: "executeTask s f task w = runClaimed s f task (snd (claimStep s f task w))"
    using a1 a2 a3 by (rule executeTask_claimed)
  have "task_id task \<in> set (map taskId (rows (snd (claimStep s f task w))))"
    using a2 a3 by (rule claimStep_has_row)
  from find_taskId_Some [OF this] obtain r where
    r: "find (\<lambda>r. taskId r = task_id task) (rows (snd (claimStep s f task w))) = Some r"
      "taskId r = task_id task"
    by blast
  note res = runClaimed_fulfilled [OF a4 body a7, of "snd (claimStep s f task w)"]
  show "\<exists>rep. getTask (task_id task) (rows (snd (executeTask s f task w))) = Some rep \<and>
         report_id rep = task_id task \<and> isRunning rep = False \<and>
         report_lastResult rep = Str ''ok'' \<and>
         report_lastExecutedAt rep = Some (completionTime f)"
    unfolding run res
    by (simp add: getTask_updateWhereTaskId r entityToReport_def successRelease_def
        orEmptyString_def)
qed

text \<open>
  \<open>send-digest\<close> fulfils with \<open>"ok"\<close> after 10 ms on an idle row: the report is not
  running, \<open>"ok"\<close>, executed at 1010; an unknown id is not found.
\<close>

theorem C9_witness:
  "\<not> isServer worker \<and> releaseFault calm = None \<and>
   fst (claimStep worker calm (digest (SettlesAfter 10 (Fulfils (Str ''ok'')))) (blank [idle True]))
     = Inr 1 \<and>
   resolveTimeout worker (digest (SettlesAfter 10 (Fulfils (Str ''ok'')))) = Inr (Some 100) \<and>
   10 < setTimeoutDelay (Some 100) \<and>
   getTask ''send-digest''
     (rows (snd (executeTask worker calm (digest (SettlesAfter 10 (Fulfils (Str ''ok''))))
                   (blank [idle True])))) =
     Some \<lparr>report_id = ''send-digest'', report_lastExecutedAt = Some 1010, isRunning = False,
           report_lastResult = Str ''ok'', report_enabled = True\<rparr> \<and>
   getTask ''cleanup'' [idle True] = None \<and>
   getTasks [idle True] =
     [\<lparr>report_id = ''send-digest'', report_lastExecutedAt = None, isRunning = False,
       report_lastResult = Null, report_enabled = True\<rparr>]"
proof -
  have h1: "\<not> isServer worker"
    by (simp add: worker_def)
  have h2: "fst (claimStep worker calm (digest (SettlesAfter 10 (Fulfils (Str ''ok''))))
      (blank [idle True])) = Inr 1"
    by (simp add: claimStep_def ensureTaskIsRegistered_def registered_def insertOrIgnore_def
        claimLease_def tryClaim_def claimable_def blank_def calm_def idle_def)
  have h4: "resolveTimeout worker (digest (SettlesAfter 10 (Fulfils (Str ''ok''))))
      = Inr (Some 100)"
    by (simp add: resolveTimeout_def)
  have h6: "10 < setTimeoutDelay (Some 100)"
    by (simp add: setTimeoutDelay_def)
  have h7: "releaseFault calm = None"
    by (simp add: calm_def)
  have w1: "snd (claimStep worker calm (digest (SettlesAfter 10 (Fulfils (Str ''ok''))))
      (blank [idle True])) =
      \<lparr>tasks = [''send-digest'' \<mapsto> True], rows = [(idle True)\<lparr>lockedAt := Some 1000\<rparr>],
       trace = [InsertOrIgnore ''send-digest'', ClaimUpdate ''send-digest'' 1000 1], late = []\<rparr>"
    by (simp add: claimStep_def ensureTaskIsRegistered_def registered_def insertOrIgnore_def
        claimLease_def tryClaim_def claimable_def blank_def calm_def idle_def emit_def)
  have rc: "race (timerWinsTie calm) (timerRunsAt calm (Some 100))
      (execute (digest (SettlesAfter 10 (Fulfils (Str ''ok''))))) = BodyFirst (Fulfils (Str ''ok''))"
    using race_BodyFirst [OF h6] by simp
  have rows: "rows (snd (executeTask worker calm (digest (SettlesAfter 10 (Fulfils (Str ''ok''))))
      (blank [idle True]))) =
      [(idle True)\<lparr>lastExecutedAt := Some 1010, lastResult := Str ''ok''\<rparr>]"
    unfolding executeTask_claimed [OF h1 h2 one_neq_zero] runClaimed_fulfilled [OF h4 rc h7] w1
    by (simp add: updateWhereTaskId_def assign_def successRelease_def orEmptyString_def
        idle_def calm_def)
  from C9_reports_project_the_rows
    [of "[idle True]" "''cleanup''" worker calm "digest (SettlesAfter 10 (Fulfils (Str ''ok'')))"
        "blank [idle True]" 1 "Some 100" 10]
  have nf: "getTask ''cleanup'' [idle True] = None"
    and all: "getTasks [idle True] =
     [\<lparr>report_id = ''send-digest'', report_lastExecutedAt = None, isRunning = False,
       report_lastResult = Null, report_enabled = True\<rparr>]"
    by (simp_all add: idle_def)
  have one: "getTask ''send-digest''
     (rows (snd (executeTask worker calm (digest (SettlesAfter 10 (Fulfils (Str ''ok''))))
                   (blank [idle True])))) =
     Some \<lparr>report_id = ''send-digest'', report_lastExecutedAt = Some 1010, isRunning = False,
           report_lastResult = Str ''ok'', report_enabled = True\<rparr>"
    unfolding rows by (simp add: getTask_def entityToReport_def idle_def)
  show ?thesis
    using h1 h2 h4 h6 h7 nf all one by blast
qed

text \<open>
  C10 (a rejection with something that is not an \<open>Error\<close>). On a worker, for every
  attempt whose claim affected a row and whose body rejects with \<open>v\<close> before the timer
  fires, provided the release statement of the catch is executed: when \<open>v\<close> is not an
  instance of \<open>Error\<close>, every row of the task ends with
  \<open>lastResult = {error: "Unknown error"}\<close> and that is the only update written, so
  \<open>v\<close> itself does not reach the row; when \<open>v\<close> is an \<open>Error\<close> with message \<open>m\<close>,
  the rows end with \<open>{error: m}\<close>.
\<close>

theorem C10_non_error_rejection_recorded_as_unknown:
  assumes "\<not> isServer s"
    and "fst (claimStep s f task w) = Inr n"
    and "n \<noteq> 0"
    and "resolveTimeout s task = Inr t"
    and "execute task = SettlesAfter d (Rejects v)"
    and "d < setTimeoutDelay t"
    and "errorReleaseFault f = None"
  shows "fst (executeTask s f task w) = Resolved \<and>
     rowsOf (task_id task) (rows (snd (executeTask s f task w))) \<noteq> [] \<and>
     ((\<forall>m. v \<noteq> ErrorInst m) \<longrightarrow>
        (\<forall>r\<in>set (rowsOf (task_id task) (rows (snd (executeTask s f task w)))).
           lastResult r = Obj [(''error'', Str ''Unknown error'')]) \<and>
        writes (trace (snd (executeTask s f task w))) =
          writes (trace (snd (claimStep s f task w))) @
            [Update (task_id task) (failureRelease ''Unknown error'')]) \<and>
     (\<forall>m. v = ErrorInst m \<longrightarrow>
        (\<forall>r\<in>set (rowsOf (task_id task) (rows (snd (executeTask s f task w)))).
           lastResult r = Obj [(''error'', Str m)]))"
proof -
  have body: "race (timerWinsTie f) (timerRunsAt f t) (execute task) = BodyFirst (Rejects v)"
    unfolding assms(5) using assms(6) by (rule race_BodyFirst)
  have run: "executeTask s f task w = runClaimed s f task (snd (claimStep s f task w))"
    using assms(1-3) by (rule executeTask_claimed)
  have "task_id task \<in> set (map taskId (rows (snd (claimStep s f task w))))"
    using assms(2,3) by (rule claimStep_has_row)
  then have some: "rowsOf (task_id task) (rows (snd (claimStep s f task w))) \<noteq> []"
    by (simp only: rowsOf_nonempty)
  have rows: "\<forall>r\<in>set (rowsOf (task_id task) (rows (snd (executeTask s f task w)))).
      lastResult r = Obj [(''error'', Str (errorMessageOf v))]"
    unfolding run runClaimed_rejected [OF assms(4) body assms(7)]
    by (simp add: rowsOf_updateWhereTaskId failureRelease_def)
  have wr: "writes (trace (snd (executeTask s f task w))) =
      writes (trace (snd (claimStep s f task w))) @
        [Update (task_id task) (failureRelease (errorMessageOf v))]"
    unfolding run runClaimed_rejected [OF assms(4) body assms(7)]
    by (simp add: writes_def)
  have "fst (executeTask s f task w) = Resolved"
    unfolding run runClaimed_rejected [OF assms(4) body assms(7)] by simp
  moreover have "rowsOf (task_id task) (rows (snd (executeTask s f task w))) \<noteq> []"
    unfolding run runClaimed_rejected [OF assms(4) body assms(7)]
    using some by (simp add: rowsOf_updateWhereTaskId)
  ultimately show ?thesis
    using rows wr by (auto simp: errorMessageOf_unknown)
qed

text \<open>The body rejects with the string \<open>boom\<close>: the row records \<open>Unknown error\<close>.\<close>

theorem C10_witness:
  "\<not> isServer worker \<and> errorReleaseFault calm = None \<and>
   fst (claimStep worker calm (digest (SettlesAfter 10 (Rejects (Str ''boom''))))
          (blank [idle True])) = Inr 1 \<and>
   resolveTimeout worker (digest (SettlesAfter 10 (Rejects (Str ''boom'')))) = Inr (Some 100) \<and>
   10 < setTimeoutDelay (Some 100) \<and>
   rows (snd (executeTask worker calm (digest (SettlesAfter 10 (Rejects (Str ''boom''))))
          (blank [idle True]))) =
     [(idle True)\<lparr>lastResult := Obj [(''error'', Str ''Unknown error'')]\<rparr>] \<and>
   writes (trace (snd (executeTask worker calm (digest (SettlesAfter 10 (Rejects (Str ''boom''))))
          (blank [idle True])))) =
     [InsertOrIgnore ''send-digest'', ClaimUpdate ''send-digest'' 1000 1,
      Update ''send-digest'' (failureRelease ''Unknown error'')]"
proof -
  have h1: "\<not> isServer worker"
    by (simp add: worker_def)
  have h2: "fst (claimStep worker calm (digest (SettlesAfter 10 (Rejects (Str ''boom''))))
      (blank [idle True])) = Inr 1"
    by (simp add: claimStep_def ensureTaskIsRegistered_def registered_def insertOrIgnore_def
        claimLease_def tryClaim_def claimable_def blank_def calm_def idle_def)
  have h3: "(1::nat) \<noteq> 0"
    by simp
  have h4: "resolveTimeout worker (digest (SettlesAfter 10 (Rejects (Str ''boom''))))
      = Inr (Some 100)"
    by (simp add: resolveTimeout_def)
  have h5: "execute (digest (SettlesAfter 10 (Rejects (Str ''boom''))))
      = SettlesAfter 10 (Rejects (Str ''boom''))"
    by simp
  have h6: "10 < setTimeoutDelay (Some 100)"
    by (simp add: setTimeoutDelay_def)
  have h7: "errorReleaseFault calm = None"
    by (simp add: calm_def)
  have w1: "snd (claimStep worker calm (digest (SettlesAfter 10 (Rejects (Str ''boom''))))
      (blank [idle True])) =
      \<lparr>tasks = [''send-digest'' \<mapsto> True], rows = [(idle True)\<lparr>lockedAt := Some 1000\<rparr>],
       trace = [InsertOrIgnore ''send-digest'', ClaimUpdate ''send-digest'' 1000 1], late = []\<rparr>"
    by (simp add: claimStep_def ensureTaskIsRegistered_def registered_def insertOrIgnore_def
        claimLease_def tryClaim_def claimable_def blank_def calm_def idle_def emit_def)
  note c10 = C10_non_error_rejection_recorded_as_unknown [OF h1 h2 h3 h4 h5 h6 h7]
  have "writes (trace (snd (executeTask worker calm (digest (SettlesAfter 10 (Rejects (Str ''boom''))))
      (blank [idle True])))) =
      writes (trace (snd (claimStep worker calm (digest (SettlesAfter 10 (Rejects (Str ''boom''))))
        (blank [idle True])))) @
      [Update (task_id (digest (SettlesAfter 10 (Rejects (Str ''boom'')))))
         (failureRelease ''Unknown error'')]"
    using c10 by blast
  then have wr: "writes (trace (snd (executeTask worker calm
      (digest (SettlesAfter 10 (Rejects (Str ''boom'')))) (blank [idle True])))) =
     [InsertOrIgnore ''send-digest'', ClaimUpdate ''send-digest'' 1000 1,
      Update ''send-digest'' (failureRelease ''Unknown error'')]"
    by (simp add: w1 writes_def)
  have rc: "race (timerWinsTie calm) (timerRunsAt calm (Some 100))
      (execute (digest (SettlesAfter 10 (Rejects (Str ''boom''))))) = BodyFirst (Rejects (Str ''boom''))"
    using race_BodyFirst [OF h6] by simp
  have r: "rows (snd (executeTask worker calm (digest (SettlesAfter 10 (Rejects (Str ''boom''))))
          (blank [idle True]))) =
     [(idle True)\<lparr>lastResult := Obj [(''error'', Str ''Unknown error'')]\<rparr>]"
    unfolding executeTask_claimed [OF h1 h2 h3] runClaimed_rejected [OF h4 rc h7] w1
    by (simp add: updateWhereTaskId_def assign_def failureRelease_def idle_def)
  show ?thesis
    using h1 h2 h4 h6 h7 r wr by blast
qed

end
